theory Spec2Isabelle
  imports Main "HOL-Library.Word"
begin

section \<open>The MIFARE Ultralight tool \<^verbatim>\<open>utils/nfc-ctc.c\<close>\<close>

text \<open>
  The tool talks to a contactless reader through libnfc. The library and the reader are
  not part of the file; they are modelled as a device that logs every call made to it
  and answers from a list of replies fixed in advance. Everything else is the C file,
  function by function, with the file-scope variables collected in one record that is
  passed through.
\<close>

subsection \<open>The reader\<close>

type_synonym byte = "8 word"

datatype np = NP_HANDLE_CRC | NP_EASY_FRAMING | NP_INFINITE_SELECT

datatype mifare_cmd = MC_READ | MC_WRITE

text \<open>
  One constructor per library function the tool calls. A Mifare command carries the page
  and the 16 bytes of the parameter block \<^verbatim>\<open>mp.mpd.abtData\<close> at the time of the call.
\<close>

datatype call =
    NfcInit
  | NfcOpen
  | InitiatorInit
  | ListPassiveTargets
  | SetProperty np bool
  | SelectPassive
  | MifareCmd mifare_cmd nat "byte list"
  | TransceiveBytes "byte list"
  | TransceiveBits "byte list" nat
  | NfcClose
  | NfcExit

datatype reply = Fail | Ok "byte list"

record device =
  replies :: "reply list"
  calls :: "(call \<times> reply) list"

text \<open>
  A call takes the next reply and is appended to the log together with it. When the list
  of replies is used up the reader answers every further call with a failure.
\<close>

definition exchange :: "call \<Rightarrow> device \<Rightarrow> reply \<times> device" where
  "exchange c d =
     (case replies d of
        [] \<Rightarrow> (Fail, d\<lparr>calls := calls d @ [(c, Fail)]\<rparr>)
      | r # rs \<Rightarrow> (r, d\<lparr>replies := rs, calls := calls d @ [(c, r)]\<rparr>))"

text \<open>
  \<^verbatim>\<open>nfc_close\<close> and \<^verbatim>\<open>nfc_exit\<close> return nothing: they are logged with an empty
  answer and take no reply.
\<close>

definition notify :: "call \<Rightarrow> device \<Rightarrow> device" where
  "notify c d = d\<lparr>calls := calls d @ [(c, Ok [])]\<rparr>"

text \<open>The calls made between two states of the reader.\<close>

definition issued :: "device \<Rightarrow> device \<Rightarrow> (call \<times> reply) list" where
  "issued d d' = drop (length (calls d)) (calls d')"

subsection \<open>File-scope variables\<close>

datatype ev1_type = EV1_NONE | EV1_UL11 | EV1_UL21

datatype ntag_type = NTAG_NONE | NTAG_213 | NTAG_215 | NTAG_216

definition MAX_FRAME_LEN :: nat where
  "MAX_FRAME_LEN = 264"

text \<open>
  \<^verbatim>\<open>mtDump\<close> is addressed by byte offset from its start. \<^verbatim>\<open>uiBlocks\<close>, \<^verbatim>\<open>uiReadPages\<close>
  and the page counters of the loops are \<^verbatim>\<open>uint32_t\<close> in the source; \<^verbatim>\<open>uiBlocks\<close> is
  only ever assigned 16, 20, 41, 45, 135 or 231 and the counters never exceed it, so no
  32-bit operation wraps and the model uses \<open>nat\<close>.
\<close>

record globals =
  pnd :: device
  nt :: "byte list"
  mp :: "byte list"
  mtDump :: "nat \<Rightarrow> byte"
  uiBlocks :: nat
  uiReadPages :: nat
  iPWD :: "byte list"
  iPACK :: "byte list"
  iEV1Type :: ev1_type
  iNTAGType :: ntag_type
  abtEV1 :: "byte list"
  abtPWAuth :: "byte list"
  abtHalt :: "byte list"
  abtRx :: "byte list"
  szRxBits :: int
  szRx :: int
  logging :: int
  wait_for_tag :: int
  stdin :: "string list"
  stdout :: "byte list"

definition abtUnlock1 :: "byte list" where
  "abtUnlock1 = [0x40]"

definition abtUnlock2 :: "byte list" where
  "abtUnlock2 = [0x43]"

text \<open>
  The values the variables have when \<^verbatim>\<open>main\<close> starts. \<^verbatim>\<open>nt\<close>, \<^verbatim>\<open>mp\<close>, \<^verbatim>\<open>mtDump\<close> and
  \<^verbatim>\<open>abtRx\<close> have static storage and start zeroed.
\<close>

definition initial_globals :: "device \<Rightarrow> string list \<Rightarrow> globals" where
  "initial_globals d inp =
     \<lparr>pnd = d, nt = replicate 2 0, mp = replicate 16 0, mtDump = (\<lambda>_. 0),
      uiBlocks = 0x10, uiReadPages = 0,
      iPWD = [0, 0, 0, 0], iPACK = [0, 0],
      iEV1Type = EV1_NONE, iNTAGType = NTAG_NONE,
      abtEV1 = [0x60, 0x00, 0x00],
      abtPWAuth = [0x1B, 0x00, 0x00, 0x00, 0x00, 0x00, 0x00],
      abtHalt = [0x50, 0x00, 0x00, 0x00],
      abtRx = replicate 264 0, szRxBits = 0, szRx = 0,
      logging = 0, wait_for_tag = 0, stdin = inp, stdout = []\<rparr>"

subsection \<open>Memory helpers\<close>

text \<open>
  \<^verbatim>\<open>memcpy (buf + off, src, n)\<close> on a buffer held as a list; the source only calls it with
  \<open>off + n \<le> length buf\<close> and \<open>n \<le> length src\<close>.
\<close>

definition memcpy_at :: "byte list \<Rightarrow> nat \<Rightarrow> byte list \<Rightarrow> nat \<Rightarrow> byte list" where
  "memcpy_at buf off src n = take off buf @ take n src @ drop (off + n) buf"

text \<open>\<^verbatim>\<open>memcpy\<close> into the dump: \<open>n\<close> bytes of \<open>src\<close> to byte offset \<open>off\<close>.\<close>

definition memcpy_dump :: "(nat \<Rightarrow> byte) \<Rightarrow> nat \<Rightarrow> byte list \<Rightarrow> nat \<Rightarrow> (nat \<Rightarrow> byte)" where
  "memcpy_dump m off src n =
     (\<lambda>i. if off \<le> i \<and> i < off + n then src ! (i - off) else m i)"

text \<open>
  \<^verbatim>\<open>iso14443a_crc_append (buf, n)\<close> stores the two CRC bytes of the first \<open>n\<close> bytes behind
  them. The CRC routine belongs to the library, so it is a parameter \<open>crc\<close>.
\<close>

definition iso14443a_crc_append ::
  "(byte list \<Rightarrow> byte \<times> byte) \<Rightarrow> byte list \<Rightarrow> nat \<Rightarrow> byte list" where
  "iso14443a_crc_append crc buf n =
     (let (c0, c1) = crc (take n buf) in memcpy_at buf n [c0, c1] 2)"

subsection \<open>Transceive adapter\<close>

text \<open>
  \<^verbatim>\<open>transmit_bits\<close> and \<^verbatim>\<open>transmit_bytes\<close>: the library returns the number of bits or
  bytes received, or a negative error code (here \<open>-1\<close>; the tool only tests the sign).
  A reply longer than the receive buffer is an error of the library call.
\<close>

definition transmit_bits :: "byte list \<Rightarrow> nat \<Rightarrow> globals \<Rightarrow> bool \<times> globals" where
  "transmit_bits pbtTx szTxBits g =
     (case exchange (TransceiveBits pbtTx szTxBits) (pnd g) of
        (Ok rx, d) \<Rightarrow>
          if length rx \<le> MAX_FRAME_LEN
          then (True, g\<lparr>pnd := d, abtRx := memcpy_at (abtRx g) 0 rx (length rx),
                        szRxBits := 8 * int (length rx)\<rparr>)
          else (False, g\<lparr>pnd := d, szRxBits := - 1\<rparr>)
      | (Fail, d) \<Rightarrow> (False, g\<lparr>pnd := d, szRxBits := - 1\<rparr>))"

definition transmit_bytes :: "byte list \<Rightarrow> globals \<Rightarrow> bool \<times> globals" where
  "transmit_bytes pbtTx g =
     (case exchange (TransceiveBytes pbtTx) (pnd g) of
        (Ok rx, d) \<Rightarrow>
          if length rx \<le> MAX_FRAME_LEN
          then (True, g\<lparr>pnd := d, abtRx := memcpy_at (abtRx g) 0 rx (length rx),
                        szRx := int (length rx)\<rparr>)
          else (False, g\<lparr>pnd := d, szRx := - 1\<rparr>)
      | (Fail, d) \<Rightarrow> (False, g\<lparr>pnd := d, szRx := - 1\<rparr>))"

text \<open>\<^verbatim>\<open>nfc_device_set_property_bool (pnd, p, v) >= 0\<close>.\<close>

definition set_property_bool :: "np \<Rightarrow> bool \<Rightarrow> globals \<Rightarrow> bool \<times> globals" where
  "set_property_bool p v g =
     (case exchange (SetProperty p v) (pnd g) of
        (Ok _, d) \<Rightarrow> (True, g\<lparr>pnd := d\<rparr>)
      | (Fail, d) \<Rightarrow> (False, g\<lparr>pnd := d\<rparr>))"

definition raw_mode_start :: "globals \<Rightarrow> bool \<times> globals" where
  "raw_mode_start g =
     (let (ok, g1) = set_property_bool NP_HANDLE_CRC False g in
      if \<not> ok then (False, g1)
      else let (ok, g2) = set_property_bool NP_EASY_FRAMING False g1 in
        if \<not> ok then (False, g2) else (True, g2))"

definition raw_mode_end :: "globals \<Rightarrow> bool \<times> globals" where
  "raw_mode_end g =
     (let (ok, g1) = set_property_bool NP_HANDLE_CRC True g in
      if \<not> ok then (False, g1)
      else let (ok, g2) = set_property_bool NP_EASY_FRAMING True g1 in
        if \<not> ok then (False, g2) else (True, g2))"

subsection \<open>Version probe, password authentication, backdoor unlock\<close>

definition get_ev1_version :: "(byte list \<Rightarrow> byte \<times> byte) \<Rightarrow> globals \<Rightarrow> bool \<times> globals" where
  "get_ev1_version crc g =
     (let (ok, g1) = raw_mode_start g in
      if \<not> ok then (False, g1)
      else
        let g2 = g1\<lparr>abtEV1 := iso14443a_crc_append crc (abtEV1 g1) 1\<rparr>;
            (ok, g3) = transmit_bytes (take 3 (abtEV1 g2)) g2
        in
          if \<not> ok then (let (_, g4) = raw_mode_end g3 in (False, g4))
          else
            let (ok, g4) = raw_mode_end g3 in
            if \<not> ok then (False, g4)
            else if szRx g4 = 0 then (False, g4)
            else (True, g4))"

definition ev1_pwd_auth ::
  "(byte list \<Rightarrow> byte \<times> byte) \<Rightarrow> byte list \<Rightarrow> globals \<Rightarrow> bool \<times> globals" where
  "ev1_pwd_auth crc pwd g =
     (let (ok, g1) = raw_mode_start g in
      if \<not> ok then (False, g1)
      else
        let g2 = g1\<lparr>abtPWAuth := memcpy_at (abtPWAuth g1) 1 pwd 4\<rparr>;
            g3 = g2\<lparr>abtPWAuth := iso14443a_crc_append crc (abtPWAuth g2) 5\<rparr>;
            (ok, g4) = transmit_bytes (take 7 (abtPWAuth g3)) g3
        in
          if \<not> ok then (False, g4)
          else
            let (ok, g5) = raw_mode_end g4 in
            if \<not> ok then (False, g5) else (True, g5))"

definition unlock_card :: "(byte list \<Rightarrow> byte \<times> byte) \<Rightarrow> globals \<Rightarrow> bool \<times> globals" where
  "unlock_card crc g =
     (let (ok, g1) = raw_mode_start g in
      if \<not> ok then (False, g1)
      else
        let g2 = g1\<lparr>abtHalt := iso14443a_crc_append crc (abtHalt g1) 2\<rparr>;
            (_, g3) = transmit_bytes (take 4 (abtHalt g2)) g2;
            (ok, g4) = transmit_bits abtUnlock1 7 g3
        in
          if \<not> ok then (False, g4)
          else
            let (ok, g5) = transmit_bytes (take 1 abtUnlock2) g4 in
            if \<not> ok then (False, g5)
            else
              let (ok, g6) = raw_mode_end g5 in
              if \<not> ok then (False, g6) else (True, g6))"

subsection \<open>Page commands and target selection\<close>

text \<open>
  \<^verbatim>\<open>nfc_initiator_mifare_cmd (pnd, mc, page, &mp)\<close>. A read succeeds when the tag
  delivers the 16 bytes of four pages, which are stored in \<^verbatim>\<open>mp.mpd.abtData\<close>; a write
  sends \<^verbatim>\<open>mp.mpd.abtData\<close> and leaves it as it is.
\<close>

definition nfc_initiator_mifare_cmd :: "mifare_cmd \<Rightarrow> nat \<Rightarrow> globals \<Rightarrow> bool \<times> globals" where
  "nfc_initiator_mifare_cmd mc page g =
     (case exchange (MifareCmd mc page (mp g)) (pnd g) of
        (Ok rx, d) \<Rightarrow>
          (case mc of
             MC_READ \<Rightarrow> if length rx = 16 then (True, g\<lparr>pnd := d, mp := rx\<rparr>)
                        else (False, g\<lparr>pnd := d\<rparr>)
           | MC_WRITE \<Rightarrow> (True, g\<lparr>pnd := d\<rparr>))
      | (Fail, d) \<Rightarrow> (False, g\<lparr>pnd := d\<rparr>))"

text \<open>
  \<^verbatim>\<open>nfc_initiator_select_passive_target (pnd, nmMifare, ..., &nt) > 0\<close>: on success the
  target information is stored in \<^verbatim>\<open>nt\<close>, which begins with the two ATQA bytes.
\<close>

definition select_passive_target :: "globals \<Rightarrow> bool \<times> globals" where
  "select_passive_target g =
     (case exchange SelectPassive (pnd g) of
        (Ok rx, d) \<Rightarrow> (True, g\<lparr>pnd := d, nt := memcpy_at (nt g) 0 rx (length rx)\<rparr>)
      | (Fail, d) \<Rightarrow> (False, g\<lparr>pnd := d\<rparr>))"

subsection \<open>Reading the tag\<close>

text \<open>
  \<^verbatim>\<open>print_success_or_failure (bFailure, &ok, &failed)\<close>; both call sites pass the address
  of a counter, so the two null tests of the source are always true. The pair is
  (ok counter, failed counter).
\<close>

definition print_success_or_failure :: "bool \<Rightarrow> nat \<times> nat \<Rightarrow> nat \<times> nat" where
  "print_success_or_failure bFailure c =
     (fst c + (if bFailure then 0 else 1), snd c + (if bFailure then 1 else 0))"

text \<open>
  What the absent header \<^verbatim>\<open>mifare.h\<close> fixes and the code relies on: the byte offsets of
  the password and PACK fields within the configuration blocks, the size of an element
  of \<^verbatim>\<open>mtDump.nt\<close> and the size of \<^verbatim>\<open>mtDump\<close>. They are parameters of the model. An
  element of \<^verbatim>\<open>mtDump.ul\<close> is 16 bytes: the code stores the 16 bytes of four pages in
  \<^verbatim>\<open>mtDump.ul[page / 4].mbd.abtData\<close> and reads page \<open>page\<close> back from offset
  \<^verbatim>\<open>(page % 4) * 4\<close> of it.
\<close>

record mifare_h =
  mbc11_pwd :: nat
  mbc11_pack :: nat
  mbc21a_pwd :: nat
  mbc21b_pack :: nat
  sizeof_nt :: nat
  mbc21356d_pwd :: nat
  mbc21356e_pack :: nat
  sizeof_maxtag :: nat

text \<open>Byte offset of \<^verbatim>\<open>mtDump.ul[k]\<close> and of \<^verbatim>\<open>mtDump.nt[k]\<close>.\<close>

definition ul :: "nat \<Rightarrow> nat" where
  "ul k = 16 * k"

definition nt_at :: "mifare_h \<Rightarrow> nat \<Rightarrow> nat" where
  "nt_at h k = sizeof_nt h * k"

text \<open>One pass of the loop of \<^verbatim>\<open>read_card\<close>: the block read, the copy, the counting.\<close>

definition read_stride :: "nat \<Rightarrow> bool \<times> nat \<times> globals \<Rightarrow> bool \<times> nat \<times> globals" where
  "read_stride page s =
     (let (bFailure, uiFailedPages, g) = s;
          (ok, g1) = nfc_initiator_mifare_cmd MC_READ page g;
          g2 = (if ok
                then g1\<lparr>mtDump := memcpy_dump (mtDump g1) (ul (page div 4)) (mp g1)
                       (if uiBlocks g1 - page < 4 then (uiBlocks g1 - page) * 4 else 16)\<rparr>
                else g1);
          bFailure1 = (if ok then bFailure else True);
          n = (if uiBlocks g2 - page < 4 then uiBlocks g2 - page else 4);
          c = (print_success_or_failure bFailure1 ^^ n) (uiReadPages g2, uiFailedPages)
      in (bFailure1, snd c, g2\<lparr>uiReadPages := fst c\<rparr>))"

function read_pages :: "nat \<Rightarrow> bool \<times> nat \<times> globals \<Rightarrow> bool \<times> nat \<times> globals" where
  "read_pages page s =
     (if page < uiBlocks (snd (snd s)) then read_pages (page + 4) (read_stride page s) else s)"
  by pat_completeness auto

termination
  by (relation "measure (\<lambda>(page, s). uiBlocks (snd (snd s)) - page)")
     (auto simp: read_stride_def nfc_initiator_mifare_cmd_def exchange_def Let_def split_beta
        split: list.splits reply.splits)

text \<open>The two switches at the end of \<^verbatim>\<open>read_card\<close> that copy the secrets into the dump.\<close>

definition overlay_ev1 :: "mifare_h \<Rightarrow> globals \<Rightarrow> globals" where
  "overlay_ev1 h g =
     (case iEV1Type g of
        EV1_UL11 \<Rightarrow>
          g\<lparr>mtDump := memcpy_dump (memcpy_dump (mtDump g) (ul 4 + mbc11_pwd h) (iPWD g) 4)
                        (ul 4 + mbc11_pack h) (iPACK g) 2\<rparr>
      | EV1_UL21 \<Rightarrow>
          g\<lparr>mtDump := memcpy_dump (memcpy_dump (mtDump g) (ul 9 + mbc21a_pwd h) (iPWD g) 4)
                        (ul 9 + mbc21b_pack h) (iPACK g) 2\<rparr>
      | EV1_NONE \<Rightarrow> g)"

definition overlay_ntag :: "mifare_h \<Rightarrow> globals \<Rightarrow> globals" where
  "overlay_ntag h g =
     (case iNTAGType g of
        NTAG_213 \<Rightarrow>
          g\<lparr>mtDump := memcpy_dump
               (memcpy_dump (mtDump g) (nt_at h 43 + mbc21356d_pwd h) (iPWD g) 4)
               (nt_at h 44 + mbc21356e_pack h) (iPACK g) 2\<rparr>
      | NTAG_215 \<Rightarrow>
          g\<lparr>mtDump := memcpy_dump
               (memcpy_dump (mtDump g) (nt_at h 133 + mbc21356d_pwd h) (iPWD g) 4)
               (nt_at h 134 + mbc21356e_pack h) (iPACK g) 2\<rparr>
      | NTAG_216 \<Rightarrow>
          g\<lparr>mtDump := memcpy_dump
               (memcpy_dump (mtDump g) (nt_at h 229 + mbc21356d_pwd h) (iPWD g) 4)
               (nt_at h 230 + mbc21356e_pack h) (iPACK g) 2\<rparr>
      | NTAG_NONE \<Rightarrow> g)"

text \<open>
  \<^verbatim>\<open>read_card\<close> returns \<^verbatim>\<open>!bFailure\<close>; the local \<^verbatim>\<open>uiFailedPages\<close>, which the source only
  prints, is returned with it.
\<close>

definition read_card :: "mifare_h \<Rightarrow> globals \<Rightarrow> bool \<times> nat \<times> globals" where
  "read_card h g =
     (let (bFailure, uiFailedPages, g1) = read_pages 0 (False, 0, g)
      in (\<not> bFailure, uiFailedPages, overlay_ntag h (overlay_ev1 h g1)))"

subsection \<open>Magic-tag check\<close>

text \<open>The write loop of \<^verbatim>\<open>check_magic\<close>, pages 0 to 2, left at the first failed write.\<close>

function magic_write :: "nat \<Rightarrow> byte list \<Rightarrow> bool \<Rightarrow> globals \<Rightarrow> bool \<times> globals" where
  "magic_write page original_b0 directWrite g =
     (if page \<le> 2 then
        let g1 = g\<lparr>mp := memcpy_at (mp g) 0 (drop (page * 4) original_b0) 4\<rparr>;
            (ok, g2) = nfc_initiator_mifare_cmd MC_WRITE page g1
        in if \<not> ok then (False, g2)
           else magic_write (page + 1) original_b0 directWrite g2
      else (directWrite, g))"
  by pat_completeness auto
termination
  by (relation "measure (\<lambda>(page, b, d, g). 3 - page)") auto

text \<open>
  \<^verbatim>\<open>original_b0\<close> is an uninitialised local array of 12 bytes; \<open>stack\<close> is what it holds
  before the block read.
\<close>

definition check_magic ::
  "byte list \<Rightarrow> (byte list \<Rightarrow> byte \<times> byte) \<Rightarrow> globals \<Rightarrow> bool \<times> globals" where
  "check_magic stack crc g =
     (let (ok, g1) = nfc_initiator_mifare_cmd MC_READ 0 g;
          original_b0 = (if ok then memcpy_at stack 0 (mp g1) 12 else stack);
          (directWrite, g2) = magic_write 0 original_b0 ok g1
      in if directWrite then (True, g2) else unlock_card crc g2)"

subsection \<open>Writing the tag\<close>

record write_locals =
  bFailure :: bool
  uiWrittenPages :: nat
  uiSkippedPages :: nat
  uiFailedPages :: nat

text \<open>
  The end of the loop body of \<^verbatim>\<open>write_card\<close>: the 16-byte frame is built from the four
  bytes of the page in the dump and twelve zero bytes, the page is written, the result
  is counted.
\<close>

definition write_page :: "nat \<Rightarrow> write_locals \<Rightarrow> globals \<Rightarrow> write_locals \<times> globals" where
  "write_page page l g =
     (let uiBlock = page div 4;
          g1 = g\<lparr>mp := memcpy_at (mp g) 0
                 (map (mtDump g) [ul uiBlock + (page mod 4) * 4 ..< ul uiBlock + (page mod 4) * 4 + 4]) 4\<rparr>;
          g2 = g1\<lparr>mp := memcpy_at (mp g1) 4 (replicate 12 0) 12\<rparr>;
          (ok, g3) = nfc_initiator_mifare_cmd MC_WRITE page g2;
          l1 = (if \<not> ok then l\<lparr>bFailure := True\<rparr> else l);
          c = print_success_or_failure (bFailure l1) (uiWrittenPages l1, uiFailedPages l1)
      in (l1\<lparr>uiWrittenPages := fst c, uiFailedPages := snd c\<rparr>, g3))"

text \<open>The loop of \<^verbatim>\<open>write_card\<close>; the first component of the result is the return value.\<close>

function write_pages ::
  "bool \<Rightarrow> bool \<Rightarrow> bool \<Rightarrow> nat \<Rightarrow> write_locals \<Rightarrow> globals \<Rightarrow> bool \<times> write_locals \<times> globals" where
  "write_pages write_otp write_lock write_dyn_lock page l g =
     (if page < uiBlocks g then
        if \<not> write_lock \<and> page = 0x2 then
          write_pages write_otp write_lock write_dyn_lock (page + 1)
            (l\<lparr>uiSkippedPages := uiSkippedPages l + 1\<rparr>) g
        else if page = 0x3 \<and> \<not> write_otp then
          write_pages write_otp write_lock write_dyn_lock (page + 1)
            (l\<lparr>uiSkippedPages := uiSkippedPages l + 1\<rparr>) g
        else if ((iEV1Type g = EV1_UL21 \<and> page = 0x24) \<or>
                 (iNTAGType g = NTAG_213 \<and> page = 0x28) \<or>
                 (iNTAGType g = NTAG_215 \<and> page = 0x82) \<or>
                 (iNTAGType g = NTAG_216 \<and> page = 0xe2)) \<and> \<not> write_dyn_lock then
          write_pages write_otp write_lock write_dyn_lock (page + 1)
            (l\<lparr>uiSkippedPages := uiSkippedPages l + 1\<rparr>) g
        else if bFailure l then
          (let (ok, g1) = select_passive_target g in
           if \<not> ok then (False, l, g1)
           else
             let (l2, g2) = write_page page (l\<lparr>bFailure := False\<rparr>) g1
             in write_pages write_otp write_lock write_dyn_lock (page + 1) l2 g2)
        else
          (let (l2, g2) = write_page page l g
           in write_pages write_otp write_lock write_dyn_lock (page + 1) l2 g2)
      else (True, l, g))"
  by pat_completeness auto
termination
  by (relation "measure (\<lambda>(otp, lock, dyn, page, l, g). uiBlocks g - page)")
     (auto simp: write_page_def select_passive_target_def nfc_initiator_mifare_cmd_def
        exchange_def Let_def split: list.splits reply.splits prod.splits if_splits)

text \<open>
  \<^verbatim>\<open>fgets (buffer, BUFSIZ, stdin)\<close>: \<^verbatim>\<open>stdin\<close> is the list of the strings that successive
  calls deliver; at the end of the input the call fails and the buffer keeps what it
  held. \<^verbatim>\<open>buffer[0]\<close> of an empty string is the terminating zero.
\<close>

definition fgets :: "string \<Rightarrow> globals \<Rightarrow> string \<times> globals" where
  "fgets buffer g = (case stdin g of [] \<Rightarrow> (buffer, g) | ln # rest \<Rightarrow> (ln, g\<lparr>stdin := rest\<rparr>))"

definition answered_yes :: "string \<Rightarrow> bool" where
  "answered_yes buffer =
     (case buffer of [] \<Rightarrow> False | c # _ \<Rightarrow> c = CHR ''y'' \<or> c = CHR ''Y'')"

definition write_locals0 :: write_locals where
  "write_locals0 = \<lparr>bFailure = False, uiWrittenPages = 0, uiSkippedPages = 0, uiFailedPages = 0\<rparr>"

text \<open>
  \<^verbatim>\<open>write_card\<close> from the comment "We may need to skip 2 first pages" on, with the four
  flags as they are once the questions have been answered. \<open>stack\<close> is the indeterminate
  content of the local array of \<^verbatim>\<open>check_magic\<close>.
\<close>

definition write_card_flags ::
  "byte list \<Rightarrow> (byte list \<Rightarrow> byte \<times> byte) \<Rightarrow> bool \<Rightarrow> bool \<Rightarrow> bool \<Rightarrow> bool \<Rightarrow> globals
   \<Rightarrow> bool \<times> write_locals \<times> globals" where
  "write_card_flags stack crc write_otp write_lock write_dyn_lock write_uid g =
     (if \<not> write_uid then
        write_pages write_otp write_lock write_dyn_lock 2 (write_locals0\<lparr>uiSkippedPages := 2\<rparr>) g
      else
        let (ok, g1) = check_magic stack crc g in
        if \<not> ok then (False, write_locals0, g1)
        else write_pages write_otp write_lock write_dyn_lock 0 write_locals0 g1)"

text \<open>
  \<^verbatim>\<open>write_card\<close>: a flag that is not set is asked for on standard input. \<open>buffer0\<close> is the
  indeterminate content of the local \<^verbatim>\<open>buffer\<close>.
\<close>

definition write_card ::
  "string \<Rightarrow> byte list \<Rightarrow> (byte list \<Rightarrow> byte \<times> byte) \<Rightarrow> bool \<Rightarrow> bool \<Rightarrow> bool \<Rightarrow> bool \<Rightarrow> globals
   \<Rightarrow> bool \<times> write_locals \<times> globals" where
  "write_card buffer0 stack crc write_otp write_lock write_dyn_lock write_uid g =
     (let (buffer1, g1) = (if \<not> write_otp then fgets buffer0 g else (buffer0, g));
          write_otp1 = (if \<not> write_otp then answered_yes buffer1 else write_otp);
          (buffer2, g2) = (if \<not> write_lock then fgets buffer1 g1 else (buffer1, g1));
          write_lock1 = (if \<not> write_lock then answered_yes buffer2 else write_lock);
          ask_dyn = (\<not> write_dyn_lock \<and> (iNTAGType g2 \<noteq> NTAG_NONE \<or> iEV1Type g2 = EV1_UL21));
          (buffer3, g3) = (if ask_dyn then fgets buffer2 g2 else (buffer2, g2));
          write_dyn_lock1 = (if ask_dyn then answered_yes buffer3 else write_dyn_lock);
          (buffer4, g4) = (if \<not> write_uid then fgets buffer3 g3 else (buffer3, g3));
          write_uid1 = (if \<not> write_uid then answered_yes buffer4 else write_uid)
      in write_card_flags stack crc write_otp1 write_lock1 write_dyn_lock1 write_uid1 g4)"

subsection \<open>Password text\<close>

text \<open>
  \<^verbatim>\<open>sscanf (pwd, "%2x%2x%2x%2x", ...)\<close>. One \<^verbatim>\<open>%2x\<close> directive skips white space and then
  takes an item of at most two characters: an optional sign and hexadecimal digits. The
  value is an \<^verbatim>\<open>unsigned int\<close>, a negative item wraps. What the C library does with an
  item that begins with the prefix \<^verbatim>\<open>0x\<close>, which alone fills the width, differs between
  implementations and is the parameter \<open>prefixed\<close>, applied to the text from the prefix on.
\<close>

definition isspace :: "char \<Rightarrow> bool" where
  "isspace c = (c = CHR '' '' \<or> (9 \<le> (of_char c :: nat) \<and> (of_char c :: nat) \<le> 13))"

definition hexval :: "char \<Rightarrow> nat option" where
  "hexval c =
     (let n = (of_char c :: nat) in
      if 48 \<le> n \<and> n \<le> 57 then Some (n - 48)
      else if 97 \<le> n \<and> n \<le> 102 then Some (n - 87)
      else if 65 \<le> n \<and> n \<le> 70 then Some (n - 55)
      else None)"

definition scan_2x ::
  "(string \<Rightarrow> (32 word \<times> string) option) \<Rightarrow> string \<Rightarrow> (32 word \<times> string) option" where
  "scan_2x prefixed s =
     (case dropWhile isspace s of
        [] \<Rightarrow> None
      | c # cs \<Rightarrow>
          if c = CHR ''-'' \<or> c = CHR ''+'' then
            (case cs of
               [] \<Rightarrow> None
             | d # ds \<Rightarrow>
                 (case hexval d of
                    None \<Rightarrow> None
                  | Some v \<Rightarrow> Some (if c = CHR ''-'' then - of_nat v else of_nat v, ds)))
          else if c = CHR ''0'' \<and> cs \<noteq> [] \<and> (hd cs = CHR ''x'' \<or> hd cs = CHR ''X'') then
            prefixed (c # cs)
          else
            (case hexval c of
               None \<Rightarrow> None
             | Some v \<Rightarrow>
                 (case cs of
                    [] \<Rightarrow> Some (of_nat v, [])
                  | d # ds \<Rightarrow>
                      (case hexval d of
                         None \<Rightarrow> Some (of_nat v, cs)
                       | Some w \<Rightarrow> Some (of_nat (16 * v + w), ds)))))"

text \<open>
  \<^verbatim>\<open>ev1_load_pwd (target, pwd)\<close>: the return value and the four bytes of \<^verbatim>\<open>target\<close>
  afterwards. The conversions stop at the first directive that fails, and the function
  returns false unless all four succeeded.
\<close>

definition ev1_load_pwd ::
  "(string \<Rightarrow> (32 word \<times> string) option) \<Rightarrow> byte list \<Rightarrow> string \<Rightarrow> bool \<times> byte list" where
  "ev1_load_pwd prefixed target pwd =
     (case scan_2x prefixed pwd of
        None \<Rightarrow> (False, target)
      | Some (t0, s1) \<Rightarrow>
     (case scan_2x prefixed s1 of
        None \<Rightarrow> (False, target)
      | Some (t1, s2) \<Rightarrow>
     (case scan_2x prefixed s2 of
        None \<Rightarrow> (False, target)
      | Some (t2, s3) \<Rightarrow>
     (case scan_2x prefixed s3 of
        None \<Rightarrow> (False, target)
      | Some (t3, s4) \<Rightarrow> (True, [ucast t0, ucast t1, ucast t2, ucast t3])))))"

subsection \<open>The program\<close>

text \<open>
  How a run of \<^verbatim>\<open>main\<close> ends: with \<^verbatim>\<open>exit\<close>, for the reason given, or never, when the
  tool was told to wait for a tag and the reader has no successful selection left to
  offer, so that the selection loop polls for ever.
\<close>

datatype exit_reason =
    UsageError
  | InitFailed
  | OpenFailed
  | DeviceError
  | NoTagFound
  | NotUltralightTag
  | UnknownVariant
  | AuthFailed
  | Finished

datatype outcome = Exit exit_reason globals | Polling globals

text \<open>A library call of which the tool only uses whether it succeeded.\<close>

definition lib_call :: "call \<Rightarrow> globals \<Rightarrow> bool \<times> globals" where
  "lib_call c g =
     (case exchange c (pnd g) of
        (Ok _, d) \<Rightarrow> (True, g\<lparr>pnd := d\<rparr>)
      | (Fail, d) \<Rightarrow> (False, g\<lparr>pnd := d\<rparr>))"

text \<open>\<^verbatim>\<open>nfc_close (pnd); nfc_exit (context);\<close>\<close>

definition close_exit :: "globals \<Rightarrow> globals" where
  "close_exit g = g\<lparr>pnd := notify NfcExit (notify NfcClose (pnd g))\<rparr>"

text \<open>\<^verbatim>\<open>s[i]\<close> of a C string: the terminating zero sits at its length.\<close>

definition char_at :: "string \<Rightarrow> nat \<Rightarrow> char" where
  "char_at s i = (if i < length s then s ! i else CHR 0x00)"

text \<open>
  The argument loop, which starts at \<^verbatim>\<open>argv[0]\<close>; \<open>Inl\<close> is the exit after
  \<^verbatim>\<open>print_usage\<close>. \<^verbatim>\<open>atoi\<close> belongs to the C library and is a parameter.
\<close>

fun main_args ::
  "(string \<Rightarrow> int) \<Rightarrow> string list \<Rightarrow> int \<times> int \<times> globals \<Rightarrow> globals + int \<times> int \<times> globals" where
  "main_args atoi [] s = Inr s"
| "main_args atoi (a # as) (start_byte, stop_byte, g) =
     (if char_at a 0 = CHR ''-'' then
        if char_at a 1 = CHR ''d'' then main_args atoi as (start_byte, stop_byte, g\<lparr>logging := 1\<rparr>)
        else if char_at a 1 = CHR ''w'' then
          main_args atoi as (start_byte, stop_byte, g\<lparr>wait_for_tag := 1\<rparr>)
        else Inl g
      else if 0 < atoi a then
        if start_byte = - 1 then main_args atoi as (atoi a, stop_byte, g)
        else if stop_byte = - 1 then main_args atoi as (start_byte, atoi a, g)
        else Inl g
      else main_args atoi as (start_byte, stop_byte, g))"

text \<open>
  From \<^verbatim>\<open>nfc_init\<close> to the setting of \<^verbatim>\<open>NP_INFINITE_SELECT\<close>, with
  \<^verbatim>\<open>list_passive_targets\<close> inlined.
\<close>

definition main_open :: "globals \<Rightarrow> outcome + globals" where
  "main_open g =
     (let (ok, g1) = lib_call NfcInit g in
      if \<not> ok then Inl (Exit InitFailed g1)
      else
        let (ok, g2) = lib_call NfcOpen g1 in
        if \<not> ok then Inl (Exit OpenFailed (g2\<lparr>pnd := notify NfcExit (pnd g2)\<rparr>))
        else
          let (ok, g3) = lib_call InitiatorInit g2 in
          if \<not> ok then Inl (Exit DeviceError (close_exit g3))
          else
            let (_, g4) = lib_call ListPassiveTargets g3;
                (ok, g5) = lib_call InitiatorInit g4
            in
              if \<not> ok then Inl (Exit DeviceError (close_exit g5))
              else
                let (ok, g6) = set_property_bool NP_INFINITE_SELECT False g5 in
                if \<not> ok then Inl (Exit DeviceError (close_exit g6)) else Inr g6)"

text \<open>
  The \<^verbatim>\<open>do ... while (wait_for_tag)\<close> loop. Once the replies are used up every further
  selection fails, so with \<^verbatim>\<open>wait_for_tag\<close> set the loop does not end.
\<close>

function main_select :: "globals \<Rightarrow> outcome + globals" where
  "main_select g =
     (let (ok, g1) = select_passive_target g in
      if \<not> ok then
        if wait_for_tag g1 = 0 then Inl (Exit NoTagFound (close_exit g1))
        else if replies (pnd g) = [] then Inl (Polling g1)
        else main_select g1
      else Inr (g1\<lparr>wait_for_tag := 0\<rparr>))"
  by pat_completeness auto
termination
  by (relation "measure (\<lambda>g. length (replies (pnd g)))")
     (auto simp: select_passive_target_def exchange_def split: list.splits reply.splits)

text \<open>
  The test "if tag is EV1 or NTAG": the version probe and the classification of byte 6
  of its answer, or the second selection when the probe gave nothing.
\<close>

definition main_probe :: "(byte list \<Rightarrow> byte \<times> byte) \<Rightarrow> globals \<Rightarrow> outcome + globals" where
  "main_probe crc g =
     (let (ok, g1) = get_ev1_version crc g in
      if ok then
        if abtRx g1 ! 6 = 0x0b \<or> abtRx g1 ! 6 = 0x00 then
          Inr (g1\<lparr>uiBlocks := 20, iEV1Type := EV1_UL11\<rparr>)
        else if abtRx g1 ! 6 = 0x0e then
          Inr (g1\<lparr>uiBlocks := 41, iEV1Type := EV1_UL21\<rparr>)
        else if abtRx g1 ! 6 = 0x0f then
          Inr (g1\<lparr>uiBlocks := 45, iNTAGType := NTAG_213\<rparr>)
        else if abtRx g1 ! 6 = 0x11 then
          Inr (g1\<lparr>uiBlocks := 135, iNTAGType := NTAG_215\<rparr>)
        else if abtRx g1 ! 6 = 0x13 then
          Inr (g1\<lparr>uiBlocks := 231, iNTAGType := NTAG_216\<rparr>)
        else Inl (Exit UnknownVariant g1)
      else
        let (ok, g2) = select_passive_target g1 in
        if \<not> ok then Inl (Exit NoTagFound (close_exit g2)) else Inr g2)"

text \<open>"EV1 login required": the block guarded by the local \<^verbatim>\<open>bPWD\<close> of \<^verbatim>\<open>main\<close>.\<close>

definition main_auth :: "bool \<Rightarrow> (byte list \<Rightarrow> byte \<times> byte) \<Rightarrow> globals \<Rightarrow> outcome + globals" where
  "main_auth bPWD crc g =
     (if bPWD then
        let (ok, g1) = ev1_pwd_auth crc (iPWD g) g in
        if \<not> ok then Inl (Exit AuthFailed g1)
        else Inr (g1\<lparr>iPACK := memcpy_at (iPACK g1) 0 (abtRx g1) 2\<rparr>)
      else Inr g)"

text \<open>
  The read action: \<^verbatim>\<open>mtDump\<close> is cleared, the tag is read, the bytes of the dump from
  \<^verbatim>\<open>start_byte\<close> up to \<^verbatim>\<open>stop_byte\<close> are printed, then a newline.
\<close>

definition main_read :: "mifare_h \<Rightarrow> int \<Rightarrow> int \<Rightarrow> globals \<Rightarrow> globals" where
  "main_read h start_byte stop_byte g =
     (let g1 = g\<lparr>mtDump := (\<lambda>_. 0)\<rparr>;
          (bRF, uiFailedPages, g2) = read_card h g1
      in g2\<lparr>stdout := stdout g2 @
             map (mtDump g2)
               (filter (\<lambda>i. start_byte \<le> int i \<and> int i < stop_byte) [0..<sizeof_maxtag h])
             @ [0x0A]\<rparr>)"

definition main ::
  "(string \<Rightarrow> int) \<Rightarrow> (byte list \<Rightarrow> byte \<times> byte) \<Rightarrow> mifare_h \<Rightarrow> string list \<Rightarrow> device \<Rightarrow> string list
   \<Rightarrow> outcome" where
  "main atoi crc h argv d inp =
     (let bPWD = False in
      case main_args atoi argv (- 1, - 1, initial_globals d inp) of
        Inl g \<Rightarrow> Exit UsageError g
      | Inr (start_byte, stop_byte, g) \<Rightarrow>
          let start_byte = (if start_byte < 0 then 28 else start_byte);
              stop_byte = (if stop_byte < 0 then 45 else stop_byte)
          in
            (case main_open g of
               Inl out \<Rightarrow> out
             | Inr g1 \<Rightarrow>
            (case main_select g1 of
               Inl out \<Rightarrow> out
             | Inr g2 \<Rightarrow>
                 if nt g2 ! 1 \<noteq> 0x44 then Exit NotUltralightTag (close_exit g2)
                 else
            (case main_probe crc g2 of
               Inl out \<Rightarrow> out
             | Inr g3 \<Rightarrow>
            (case main_auth bPWD crc g3 of
               Inl out \<Rightarrow> out
             | Inr g4 \<Rightarrow> Exit Finished (close_exit (main_read h start_byte stop_byte g4)))))))"

text \<open>
  The field offsets and sizes of libnfc's \<^verbatim>\<open>utils/mifare.h\<close>, for use where a concrete
  layout is needed.
\<close>

definition libnfc_mifare_h :: mifare_h where
  "libnfc_mifare_h =
     \<lparr>mbc11_pwd = 8, mbc11_pack = 12, mbc21a_pwd = 12, mbc21b_pack = 0, sizeof_nt = 4,
      mbc21356d_pwd = 0, mbc21356e_pack = 0, sizeof_maxtag = 928\<rparr>"

subsection \<open>Auxiliary notions for the statements\<close>

text \<open>The reply the reader gives to its \<open>k\<close>-th call from now on.\<close>

definition reply_at :: "reply list \<Rightarrow> nat \<Rightarrow> reply" where
  "reply_at rs k = (if k < length rs then rs ! k else Fail)"

text \<open>A reply with which a block read succeeds.\<close>

definition block_read_ok :: "reply \<Rightarrow> bool" where
  "block_read_ok r = (case r of Ok d \<Rightarrow> length d = 16 | Fail \<Rightarrow> False)"

text \<open>A plain Ultralight tag of 16 pages whose second block read fails.\<close>

definition second_stride_fails :: "string list \<Rightarrow> globals" where
  "second_stride_fails inp = initial_globals
      \<lparr>replies = [Ok [1, 2, 3, 4, 5, 6, 7, 8, 9, 10, 11, 12, 13, 14, 15, 16], Fail,
                  Ok [17, 18, 19, 20, 21, 22, 23, 24, 25, 26, 27, 28, 29, 30, 31, 32],
                  Ok [33, 34, 35, 36, 37, 38, 39, 40, 41, 42, 43, 44, 45, 46, 47, 48]],
        calls = []\<rparr> inp"

text \<open>
  A tag of 41 pages on a dump filled with \<open>0xFF\<close>, of which only the last block read,
  at page 40, succeeds.
\<close>

definition last_stride_of_41 :: globals where
  "last_stride_of_41 = (initial_globals
        \<lparr>replies = [Fail, Fail, Fail, Fail, Fail, Fail, Fail, Fail, Fail, Fail,
                    Ok [1, 2, 3, 4, 5, 6, 7, 8, 9, 10, 11, 12, 13, 14, 15, 16]], calls = []\<rparr> [])
       \<lparr>uiBlocks := 41, mtDump := (\<lambda>_. 0xFF)\<rparr>"

text \<open>
  A UL11 tag, all five block reads succeeding, with the password and the PACK of the
  scenario.
\<close>

definition ul11_tag :: globals where
  "ul11_tag = (initial_globals
        \<lparr>replies = [Ok [1, 2, 3, 4, 5, 6, 7, 8, 9, 10, 11, 12, 13, 14, 15, 16],
                    Ok [17, 18, 19, 20, 21, 22, 23, 24, 25, 26, 27, 28, 29, 30, 31, 32],
                    Ok [33, 34, 35, 36, 37, 38, 39, 40, 41, 42, 43, 44, 45, 46, 47, 48],
                    Ok [49, 50, 51, 52, 53, 54, 55, 56, 57, 58, 59, 60, 61, 62, 63, 64],
                    Ok [65, 66, 67, 68, 69, 70, 71, 72, 73, 74, 75, 76, 77, 78, 79, 80]],
          calls = []\<rparr> [])
       \<lparr>uiBlocks := 20, iEV1Type := EV1_UL11,
        iPWD := [0xAA, 0xBB, 0xCC, 0xDD], iPACK := [0xEE, 0xFF]\<rparr>"

text \<open>Whether a library call, given its reply, succeeded in the eyes of its caller.\<close>

definition succeeded :: "call \<times> reply \<Rightarrow> bool" where
  "succeeded e =
     (case snd e of
        Fail \<Rightarrow> False
      | Ok rx \<Rightarrow>
          (case fst e of
             TransceiveBytes _ \<Rightarrow> length rx \<le> MAX_FRAME_LEN
           | TransceiveBits _ _ \<Rightarrow> length rx \<le> MAX_FRAME_LEN
           | MifareCmd MC_READ _ _ \<Rightarrow> length rx = 16
           | _ \<Rightarrow> True))"

text \<open>The Mifare page commands (block read, page write).\<close>

definition is_page_cmd :: "call \<times> reply \<Rightarrow> bool" where
  "is_page_cmd e = (case fst e of MifareCmd _ _ _ \<Rightarrow> True | _ \<Rightarrow> False)"

text \<open>The calls of \<^verbatim>\<open>unlock_card\<close> in order, for the CRC bytes \<open>c\<close> of the halt command.\<close>

definition backdoor_sequence :: "byte \<times> byte \<Rightarrow> call list" where
  "backdoor_sequence c =
     [SetProperty NP_HANDLE_CRC False, SetProperty NP_EASY_FRAMING False,
      TransceiveBytes [0x50, 0x00, fst c, snd c], TransceiveBits [0x40] 7,
      TransceiveBytes [0x43],
      SetProperty NP_HANDLE_CRC True, SetProperty NP_EASY_FRAMING True]"

text \<open>The reader after one more call.\<close>

definition adv :: "call \<Rightarrow> device \<Rightarrow> device" where
  "adv c d = d\<lparr>replies := tl (replies d), calls := calls d @ [(c, reply_at (replies d) 0)]\<rparr>"

text \<open>
  Inputs for \<^verbatim>\<open>check_magic\<close>: a content of its uninitialised array, and two readers on
  which the block read and the first page write fail and the frames of the backdoor are
  transmitted; the first refuses to re-enable CRC handling, the second accepts all.
\<close>

definition stale_stack :: "byte list" where
  "stale_stack = [0xDE, 0xAD, 0xBE, 0xEF, 0xDE, 0xAD, 0xBE, 0xEF, 0xDE, 0xAD, 0xBE, 0xEF]"

definition backdoor_exit_fails :: globals where
  "backdoor_exit_fails = initial_globals
     \<lparr>replies = [Fail, Fail, Ok [], Ok [], Fail, Ok [], Ok [], Fail], calls = []\<rparr> []"

definition backdoor_accepted :: globals where
  "backdoor_accepted = initial_globals
     \<lparr>replies = [Fail, Fail, Ok [], Ok [], Fail, Ok [], Ok [], Ok [], Ok []], calls = []\<rparr> []"

text \<open>The pages that the three counters of \<^verbatim>\<open>write_card\<close> account for.\<close>

definition pages_accounted :: "write_locals \<Rightarrow> nat" where
  "pages_accounted l = uiWrittenPages l + uiSkippedPages l + uiFailedPages l"

text \<open>A page write addressed to page \<open>p\<close>.\<close>

definition page_write_of :: "nat \<Rightarrow> call \<times> reply \<Rightarrow> bool" where
  "page_write_of p e = (case fst e of MifareCmd MC_WRITE q _ \<Rightarrow> q = p | _ \<Rightarrow> False)"

text \<open>
  The calls open to the write loop from page \<open>page\<close> on: a selection of the tag, or the
  write of a page that the flags and the tag type do not protect.
\<close>

definition loop_call :: "bool \<Rightarrow> bool \<Rightarrow> bool \<Rightarrow> ev1_type \<Rightarrow> ntag_type \<Rightarrow> nat \<Rightarrow> call \<times> reply \<Rightarrow> bool" where
  "loop_call write_otp write_lock write_dyn_lock ev1 ntag page e =
     (case fst e of
        SelectPassive \<Rightarrow> True
      | MifareCmd MC_WRITE p _ \<Rightarrow>
          page \<le> p \<and> (write_lock \<or> p \<noteq> 2) \<and> (write_otp \<or> p \<noteq> 3)
          \<and> (write_dyn_lock \<or>
               \<not> ((ev1 = EV1_UL21 \<and> p = 0x24) \<or> (ntag = NTAG_213 \<and> p = 0x28) \<or>
                  (ntag = NTAG_215 \<and> p = 0x82) \<or> (ntag = NTAG_216 \<and> p = 0xe2)))
      | _ \<Rightarrow> False)"

text \<open>The three tests of the write loop that make it pass over a page.\<close>

definition skips :: "bool \<Rightarrow> bool \<Rightarrow> bool \<Rightarrow> globals \<Rightarrow> nat \<Rightarrow> bool" where
  "skips write_otp write_lock write_dyn_lock g page =
     ((\<not> write_lock \<and> page = 0x2) \<or> (page = 0x3 \<and> \<not> write_otp) \<or>
      (((iEV1Type g = EV1_UL21 \<and> page = 0x24) \<or>
        (iNTAGType g = NTAG_213 \<and> page = 0x28) \<or>
        (iNTAGType g = NTAG_215 \<and> page = 0x82) \<or>
        (iNTAGType g = NTAG_216 \<and> page = 0xe2)) \<and> \<not> write_dyn_lock))"

text \<open>
  Inputs for the write path: a plain tag of 16 pages with the answers "yes" for the OTP
  bytes and "no" for the lock bytes and the UID, on which the write of page 4 fails and
  the tag is then selected again; a plain tag on which every write succeeds; and, for
  each tag type with dynamic lock bytes, the state of a tag of that type.
\<close>

definition one_failed_write :: globals where
  "one_failed_write = initial_globals
     \<lparr>replies = [Ok [], Fail, Ok [], Ok [], Ok [], Ok [], Ok [], Ok [], Ok [], Ok [], Ok [],
                 Ok [], Ok [], Ok []], calls = []\<rparr> [''y'', ''n'', ''n'']"

definition plain_tag :: globals where
  "plain_tag = initial_globals
     \<lparr>replies = [Ok [], Ok [], Ok [], Ok [], Ok [], Ok [], Ok [], Ok [], Ok [], Ok [], Ok [],
                 Ok []], calls = []\<rparr> []"

definition tag_of_type :: "ev1_type \<Rightarrow> ntag_type \<Rightarrow> nat \<Rightarrow> globals" where
  "tag_of_type ev1 ntag n =
     (initial_globals \<lparr>replies = [Ok [], Ok [], Ok [], Ok [], Ok [], Ok []], calls = []\<rparr> [])
       \<lparr>uiBlocks := n, iEV1Type := ev1, iNTAGType := ntag\<rparr>"

text \<open>The variables a step of \<^verbatim>\<open>main\<close> leaves behind, whether the program goes on or not.\<close>

fun outcome_state :: "outcome \<Rightarrow> globals" where
  "outcome_state (Exit _ g) = g"
| "outcome_state (Polling g) = g"

definition step_state :: "outcome + globals \<Rightarrow> globals" where
  "step_state r = (case r of Inl out \<Rightarrow> outcome_state out | Inr g \<Rightarrow> g)"

text \<open>Whether the program goes on after a step.\<close>

definition goes_on :: "outcome + globals \<Rightarrow> bool" where
  "goes_on r = (case r of Inl _ \<Rightarrow> False | Inr _ \<Rightarrow> True)"

text \<open>The tag type as the two type variables and the page count hold it.\<close>

definition variant_of :: "globals \<Rightarrow> ev1_type \<times> ntag_type \<times> nat" where
  "variant_of g = (iEV1Type g, iNTAGType g, uiBlocks g)"

text \<open>
  A reader that accepts the raw-mode settings and answers the version query with the
  bytes \<open>v\<close>, and one that does not answer it.
\<close>

definition tag_answering :: "byte list \<Rightarrow> globals" where
  "tag_answering v = initial_globals \<lparr>replies = [Ok [], Ok [], Ok v, Ok [], Ok []], calls = []\<rparr> []"

definition tag_silent :: globals where
  "tag_silent = initial_globals \<lparr>replies = [Ok [], Ok [], Fail, Ok [], Ok [], Ok [0x00, 0x44]], calls = []\<rparr> []"

text \<open>A password-authentication frame: a byte frame that begins with the command 0x1B.\<close>

definition is_auth_frame :: "call \<times> reply \<Rightarrow> bool" where
  "is_auth_frame e = (case fst e of TransceiveBytes f \<Rightarrow> take 1 f = [0x1B] | _ \<Rightarrow> False)"

text \<open>The number of times raw mode has been entered, that is, CRC handling switched off.\<close>

definition raw_entries :: "device \<Rightarrow> nat" where
  "raw_entries d = length (filter (\<lambda>e. fst e = SetProperty NP_HANDLE_CRC False) (calls d))"

text \<open>
  The byte offsets in the dump that the two switches at the end of \<^verbatim>\<open>read_card\<close> fill
  for the tag type detected.
\<close>

definition secret_bytes :: "mifare_h \<Rightarrow> globals \<Rightarrow> nat list" where
  "secret_bytes h g =
     (case iEV1Type g of
        EV1_UL11 \<Rightarrow> [ul 4 + mbc11_pwd h ..< ul 4 + mbc11_pwd h + 4] @
                    [ul 4 + mbc11_pack h ..< ul 4 + mbc11_pack h + 2]
      | EV1_UL21 \<Rightarrow> [ul 9 + mbc21a_pwd h ..< ul 9 + mbc21a_pwd h + 4] @
                    [ul 9 + mbc21b_pack h ..< ul 9 + mbc21b_pack h + 2]
      | EV1_NONE \<Rightarrow> []) @
     (case iNTAGType g of
        NTAG_213 \<Rightarrow> [nt_at h 43 + mbc21356d_pwd h ..< nt_at h 43 + mbc21356d_pwd h + 4] @
                    [nt_at h 44 + mbc21356e_pack h ..< nt_at h 44 + mbc21356e_pack h + 2]
      | NTAG_215 \<Rightarrow> [nt_at h 133 + mbc21356d_pwd h ..< nt_at h 133 + mbc21356d_pwd h + 4] @
                    [nt_at h 134 + mbc21356e_pack h ..< nt_at h 134 + mbc21356e_pack h + 2]
      | NTAG_216 \<Rightarrow> [nt_at h 229 + mbc21356d_pwd h ..< nt_at h 229 + mbc21356d_pwd h + 4] @
                    [nt_at h 230 + mbc21356e_pack h ..< nt_at h 230 + mbc21356e_pack h + 2]
      | NTAG_NONE \<Rightarrow> [])"

text \<open>
  The reader has seen at most \<open>n\<close> entries into raw mode and no authentication frame.
\<close>

definition quiet :: "nat \<Rightarrow> device \<Rightarrow> bool" where
  "quiet n d = (raw_entries d \<le> n \<and> list_all (\<lambda>e. \<not> is_auth_frame e) (calls d))"

text \<open>
  What C9 says of the state in which a run ends: the secrets are zero, the reader has
  seen no authentication frame and at most one entry into raw mode, and the dump is
  zero wherever \<^verbatim>\<open>read_card\<close> puts secrets for the tag type.
\<close>

definition never_authenticated :: "mifare_h \<Rightarrow> globals \<Rightarrow> bool" where
  "never_authenticated h g =
     (iPWD g = [0, 0, 0, 0] \<and> iPACK g = [0, 0] \<and> quiet 1 (pnd g) \<and>
      list_all (\<lambda>i. mtDump g i = 0) (secret_bytes h g))"

text \<open>
  The state of a run in which no password has come into play and nothing has been read:
  the secrets are zero, the version command is in place, the dump is blank, and the
  reader is quiet.
\<close>

definition no_password :: "nat \<Rightarrow> globals \<Rightarrow> bool" where
  "no_password n g =
     (iPWD g = [0, 0, 0, 0] \<and> iPACK g = [0, 0] \<and> take 1 (abtEV1 g) = [0x60] \<and>
      mtDump g = (\<lambda>_. 0) \<and> quiet n (pnd g))"

text \<open>The variables after the argument loop, whichever way it ends.\<close>

definition args_state :: "globals + int \<times> int \<times> globals \<Rightarrow> globals" where
  "args_state r = (case r of Inl g \<Rightarrow> g | Inr (a, b, g) \<Rightarrow> g)"

text \<open>
  The items that one \<^verbatim>\<open>%2x\<close> directive takes. Whether the text \<open>t\<close> that follows a
  hexadecimal digit \<open>c\<close> ends the item that \<open>c\<close> begins: the text is over, or goes on with
  a character that is no hexadecimal digit. A digit 0 that x or X follows is excepted,
  being the prefix that is left to the C library.
\<close>

definition ends_group :: "char \<Rightarrow> string \<Rightarrow> bool" where
  "ends_group c t =
     (case t of
        [] \<Rightarrow> True
      | d # _ \<Rightarrow> hexval d = None \<and> \<not> (c = CHR ''0'' \<and> (d = CHR ''x'' \<or> d = CHR ''X'')))"

text \<open>
  \<open>g\<close> is one group when the text goes on with \<open>t\<close>: white space, if any, and then two
  hexadecimal digits, or a sign and one hexadecimal digit, or one hexadecimal digit that
  ends the item. \<open>group_val\<close> is the number that the group stands for.
\<close>

definition group_of :: "string \<Rightarrow> string \<Rightarrow> bool" where
  "group_of g t =
     (case dropWhile isspace g of
        [c] \<Rightarrow> hexval c \<noteq> None \<and> ends_group c t
      | [c, d] \<Rightarrow> (c = CHR ''-'' \<or> c = CHR ''+'' \<or> hexval c \<noteq> None) \<and> hexval d \<noteq> None
      | _ \<Rightarrow> False)"

definition group_val :: "string \<Rightarrow> 32 word" where
  "group_val g =
     (case dropWhile isspace g of
        [c] \<Rightarrow> (case hexval c of None \<Rightarrow> 0 | Some v \<Rightarrow> of_nat v)
      | [c, d] \<Rightarrow>
          (case hexval d of
             None \<Rightarrow> 0
           | Some w \<Rightarrow>
               if c = CHR ''-'' then - of_nat w
               else if c = CHR ''+'' then of_nat w
               else (case hexval c of None \<Rightarrow> 0 | Some v \<Rightarrow> of_nat (16 * v + w)))
      | _ \<Rightarrow> 0)"

text \<open>The text \<open>concat gs @ u\<close> read as the groups \<open>gs\<close>, one after the other, and a rest \<open>u\<close>.\<close>

fun groups :: "string list \<Rightarrow> string \<Rightarrow> bool" where
  "groups [] u = True"
| "groups (g # gs) u = (group_of g (concat gs @ u) \<and> groups gs u)"

text \<open>
  Text that begins no group: after its leading white space it is over, or goes on with a
  character that is neither a hexadecimal digit nor a sign, or with a sign that no
  hexadecimal digit follows.
\<close>

definition no_group :: "string \<Rightarrow> bool" where
  "no_group t =
     (case dropWhile isspace t of
        [] \<Rightarrow> True
      | c # cs \<Rightarrow>
          if c = CHR ''-'' \<or> c = CHR ''+'' then (case cs of [] \<Rightarrow> True | d # _ \<Rightarrow> hexval d = None)
          else hexval c = None)"

text \<open>Text that, after its leading white space, begins with the prefix \<^verbatim>\<open>0x\<close> or \<^verbatim>\<open>0X\<close>.\<close>

definition begins_0x :: "string \<Rightarrow> bool" where
  "begins_0x t =
     (case dropWhile isspace t of
        c # d # _ \<Rightarrow> c = CHR ''0'' \<and> (d = CHR ''x'' \<or> d = CHR ''X'')
      | _ \<Rightarrow> False)"

section \<open>Properties\<close>

lemmas eval_defs =
  exchange_def set_property_bool_def raw_mode_start_def raw_mode_end_def
  transmit_bytes_def transmit_bits_def iso14443a_crc_append_def memcpy_at_def
  MAX_FRAME_LEN_def abtUnlock1_def abtUnlock2_def nfc_initiator_mifare_cmd_def
  initial_globals_def split_beta Let_def

text \<open>
  C4 (raw-mode symmetric restore). The version probe leaves raw mode when its transceive
  fails, but the backdoor unlock and the password authentication do not: on a reader
  that accepts the two raw-mode settings and then fails the transmission, the unlock
  sequence returns false after the halt frame and the 7-bit frame and the password
  authentication returns false after its frame, neither having asked the reader to
  re-enable CRC handling or standard framing, whereas the version probe in the same
  situation ends with both requests.
\<close>

theorem raw_mode_not_restored_on_transmit_failure:
  "fst (unlock_card crc (initial_globals \<lparr>replies = [Ok [], Ok [], Fail, Fail], calls = []\<rparr> inp)) = False
   \<and> calls (pnd (snd (unlock_card crc
        (initial_globals \<lparr>replies = [Ok [], Ok [], Fail, Fail], calls = []\<rparr> inp)))) =
       [(SetProperty NP_HANDLE_CRC False, Ok []), (SetProperty NP_EASY_FRAMING False, Ok []),
        (TransceiveBytes [0x50, 0x00, fst (crc [0x50, 0x00]), snd (crc [0x50, 0x00])], Fail),
        (TransceiveBits [0x40] 7, Fail)]
   \<and> fst (ev1_pwd_auth crc [1, 2, 3, 4]
        (initial_globals \<lparr>replies = [Ok [], Ok [], Fail], calls = []\<rparr> inp)) = False
   \<and> calls (pnd (snd (ev1_pwd_auth crc [1, 2, 3, 4]
        (initial_globals \<lparr>replies = [Ok [], Ok [], Fail], calls = []\<rparr> inp)))) =
       [(SetProperty NP_HANDLE_CRC False, Ok []), (SetProperty NP_EASY_FRAMING False, Ok []),
        (TransceiveBytes [0x1B, 1, 2, 3, 4,
          fst (crc [0x1B, 1, 2, 3, 4]), snd (crc [0x1B, 1, 2, 3, 4])], Fail)]
   \<and> fst (get_ev1_version crc
        (initial_globals \<lparr>replies = [Ok [], Ok [], Fail, Ok [], Ok []], calls = []\<rparr> inp)) = False
   \<and> calls (pnd (snd (get_ev1_version crc
        (initial_globals \<lparr>replies = [Ok [], Ok [], Fail, Ok [], Ok []], calls = []\<rparr> inp)))) =
       [(SetProperty NP_HANDLE_CRC False, Ok []), (SetProperty NP_EASY_FRAMING False, Ok []),
        (TransceiveBytes [0x60, fst (crc [0x60]), snd (crc [0x60])], Fail),
        (SetProperty NP_HANDLE_CRC True, Ok []), (SetProperty NP_EASY_FRAMING True, Ok [])]"
  by (simp add: unlock_card_def ev1_pwd_auth_def get_ev1_version_def eval_defs)

subsection \<open>The read loop\<close>

declare read_pages.simps [simp del]

lemma uiBlocks_read_stride [simp]:
  "uiBlocks (snd (snd (read_stride page s))) = uiBlocks (snd (snd s))"
  by (simp add: read_stride_def nfc_initiator_mifare_cmd_def exchange_def Let_def split_beta
      split: list.splits reply.splits)

lemma count_pages:
  "(print_success_or_failure b ^^ n) c =
     (fst c + (if b then 0 else n), snd c + (if b then n else 0))"
  by (induction n) (auto simp: print_success_or_failure_def)

lemma read_pages_step:
  "page < uiBlocks (snd (snd s)) \<Longrightarrow>
   read_pages page s = read_pages (page + 4) (read_stride page s)"
  by (subst read_pages.simps) simp

lemma read_pages_done:
  "\<not> page < uiBlocks (snd (snd s)) \<Longrightarrow> read_pages page s = s"
  by (subst read_pages.simps) simp

lemma read_stride_replies:
  "replies (pnd (snd (snd (read_stride page s)))) = tl (replies (pnd (snd (snd s))))"
  by (simp add: read_stride_def nfc_initiator_mifare_cmd_def exchange_def Let_def split_beta
      split: list.splits reply.splits)

lemma read_stride_dump:
  "mtDump (snd (snd (read_stride page s))) i =
     (case reply_at (replies (pnd (snd (snd s)))) 0 of
        Ok d \<Rightarrow>
          if length d = 16 \<and> 16 * (page div 4) \<le> i
             \<and> i < 16 * (page div 4) +
                   (if uiBlocks (snd (snd s)) - page < 4 then (uiBlocks (snd (snd s)) - page) * 4
                    else 16)
          then d ! (i - 16 * (page div 4)) else mtDump (snd (snd s)) i
      | Fail \<Rightarrow> mtDump (snd (snd s)) i)"
  by (simp add: read_stride_def nfc_initiator_mifare_cmd_def exchange_def Let_def split_beta
      reply_at_def memcpy_dump_def ul_def
      split: list.splits reply.splits)

lemma reply_at_tl: "reply_at (tl rs) k = reply_at rs (Suc k)"
  by (cases rs) (auto simp: reply_at_def)

text \<open>
  The dump after the loop, started at a stride boundary: byte \<open>i\<close> of the pages still to
  be read comes from the block read of its stride when that succeeded, and every other
  byte is as before.
\<close>

lemma read_pages_dump:
  "page mod 4 = 0 \<Longrightarrow>
   mtDump (snd (snd (read_pages page s))) i =
     (if 4 * page \<le> i \<and> i < 4 * uiBlocks (snd (snd s)) then
        (case reply_at (replies (pnd (snd (snd s)))) ((i - 4 * page) div 16) of
           Ok d \<Rightarrow> if length d = 16 then d ! ((i - 4 * page) mod 16) else mtDump (snd (snd s)) i
         | Fail \<Rightarrow> mtDump (snd (snd s)) i)
      else mtDump (snd (snd s)) i)"
proof (induction page s rule: read_pages.induct)
  case (1 page s)
  show ?case
  proof (cases "page < uiBlocks (snd (snd s))")
    case False
    then show ?thesis by (auto simp: read_pages_done)
  next
    case True
    have m: "(page + 4) mod 4 = 0" using "1.prems" by presburger
    have p4: "16 * (page div 4) = 4 * page" using "1.prems" by presburger
    have step: "mtDump (snd (snd (read_pages page s))) i =
      mtDump (snd (snd (read_pages (page + 4) (read_stride page s)))) i"
      using True by (simp add: read_pages_step)
    note IH = "1.IH"[OF True m]
    show ?thesis
    proof (cases "4 * page \<le> i \<and> i < 4 * uiBlocks (snd (snd s))")
      case False
      then show ?thesis using True unfolding step IH
        by (auto simp: read_stride_dump read_stride_replies p4 split: reply.splits)
    next
      case in_range: True
      show ?thesis
      proof (cases "i < 4 * page + 16")
        case True
        then have "(i - 4 * page) div 16 = 0" "(i - 4 * page) mod 16 = i - 4 * page" by auto
        then show ?thesis
          using \<open>page < uiBlocks (snd (snd s))\<close> in_range True unfolding step IH
          by (auto simp: read_stride_dump read_stride_replies p4 split: reply.splits)
      next
        case False
        then have d: "(i - 4 * page) div 16 = Suc ((i - 4 * (page + 4)) div 16)"
          "(i - 4 * page) mod 16 = (i - 4 * (page + 4)) mod 16"
          by (simp_all add: div_eq_dividend_iff le_div_geq le_mod_geq)
        show ?thesis
          using \<open>page < uiBlocks (snd (snd s))\<close> in_range False unfolding step IH
          by (auto simp: read_stride_dump read_stride_replies p4 reply_at_tl d
              simp del: mult_Suc_right split: reply.splits)
      qed
    qed
  qed
qed

lemma read_stride_keeps:
  "iEV1Type (snd (snd (read_stride page s))) = iEV1Type (snd (snd s))"
  "iNTAGType (snd (snd (read_stride page s))) = iNTAGType (snd (snd s))"
  "iPWD (snd (snd (read_stride page s))) = iPWD (snd (snd s))"
  "iPACK (snd (snd (read_stride page s))) = iPACK (snd (snd s))"
  by (simp_all add: read_stride_def nfc_initiator_mifare_cmd_def exchange_def Let_def split_beta
      split: list.splits reply.splits)

lemma read_pages_keeps:
  "iEV1Type (snd (snd (read_pages page s))) = iEV1Type (snd (snd s))
   \<and> iNTAGType (snd (snd (read_pages page s))) = iNTAGType (snd (snd s))
   \<and> iPWD (snd (snd (read_pages page s))) = iPWD (snd (snd s))
   \<and> iPACK (snd (snd (read_pages page s))) = iPACK (snd (snd s))
   \<and> uiBlocks (snd (snd (read_pages page s))) = uiBlocks (snd (snd s))"
proof (induction page s rule: read_pages.induct)
  case (1 page s)
  show ?case
  proof (cases "page < uiBlocks (snd (snd s))")
    case True
    then show ?thesis using "1.IH" by (simp add: read_pages_step read_stride_keeps)
  next
    case False
    then show ?thesis by (simp add: read_pages_done)
  qed
qed

lemma read_stride_flag:
  "fst (read_stride page s) =
     (fst s \<or> \<not> block_read_ok (reply_at (replies (pnd (snd (snd s)))) 0))"
  by (simp add: read_stride_def nfc_initiator_mifare_cmd_def exchange_def Let_def split_beta
      reply_at_def block_read_ok_def split: list.splits reply.splits)

lemma read_pages_flag:
  "\<not> fst s \<Longrightarrow>
   (\<forall>k. page + 4 * k < uiBlocks (snd (snd s)) \<longrightarrow>
        block_read_ok (reply_at (replies (pnd (snd (snd s)))) k)) \<Longrightarrow>
   \<not> fst (read_pages page s)"
proof (induction page s rule: read_pages.induct)
  case (1 page s)
  show ?case
  proof (cases "page < uiBlocks (snd (snd s))")
    case False
    then show ?thesis using "1.prems" by (simp add: read_pages_done)
  next
    case True
    have k0: "block_read_ok (reply_at (replies (pnd (snd (snd s)))) 0)"
      using "1.prems"(2) True by (metis add.right_neutral mult_0_right)
    have a: "\<not> fst (read_stride page s)"
      using "1.prems"(1) k0 by (simp add: read_stride_flag)
    have b: "\<forall>k. page + 4 + 4 * k < uiBlocks (snd (snd (read_stride page s))) \<longrightarrow>
        block_read_ok (reply_at (replies (pnd (snd (snd (read_stride page s))))) k)"
    proof (intro allI impI)
      fix k
      assume "page + 4 + 4 * k < uiBlocks (snd (snd (read_stride page s)))"
      then have "page + 4 * Suc k < uiBlocks (snd (snd s))" by simp
      then have "block_read_ok (reply_at (replies (pnd (snd (snd s)))) (Suc k))"
        using "1.prems"(2) by blast
      then show "block_read_ok (reply_at (replies (pnd (snd (snd (read_stride page s))))) k)"
        by (simp add: read_stride_replies reply_at_tl)
    qed
    show ?thesis using "1.IH"[OF True a b] True by (simp add: read_pages_step)
  qed
qed

lemma overlay_ul11:
  "iEV1Type g = EV1_UL11 \<Longrightarrow> iNTAGType g = NTAG_NONE \<Longrightarrow>
   mtDump (overlay_ntag h (overlay_ev1 h g)) i =
     (if 64 + mbc11_pack h \<le> i \<and> i < 64 + mbc11_pack h + 2
      then iPACK g ! (i - (64 + mbc11_pack h))
      else if 64 + mbc11_pwd h \<le> i \<and> i < 64 + mbc11_pwd h + 4
      then iPWD g ! (i - (64 + mbc11_pwd h))
      else mtDump g i)"
  by (simp add: overlay_ntag_def overlay_ev1_def memcpy_dump_def ul_def)

text \<open>
  C3 (bulk-read failure locality). The failure flag of \<^verbatim>\<open>read_card\<close> is set by a failed
  block read and never cleared, so a failure is not counted for its stride alone: on a
  tag of 16 pages whose second block read fails and whose third and fourth succeed, the
  bytes of pages 8 to 15 are copied into the dump, pages 4 to 7 keep their zero bytes,
  and yet 12 pages are counted as failed and only 4 as read.
\<close>

theorem read_failure_counted_for_later_strides:
  "fst (read_card h (second_stride_fails inp)) = False
   \<and> fst (snd (read_card h (second_stride_fails inp))) = 12
   \<and> uiReadPages (snd (snd (read_card h (second_stride_fails inp)))) = 4
   \<and> map (mtDump (snd (snd (read_card h (second_stride_fails inp))))) [16, 31, 32, 47, 48, 63]
       = [0, 0, 17, 32, 33, 48]"
proof -
  have a: "fst (read_card h (second_stride_fails inp)) = False"
    by (simp add: second_stride_fails_def read_card_def read_pages_step read_pages_done
        read_stride_def nfc_initiator_mifare_cmd_def exchange_def Let_def split_beta
        initial_globals_def overlay_ev1_def overlay_ntag_def count_pages)
  have b: "fst (snd (read_card h (second_stride_fails inp))) = 12"
    by (simp add: second_stride_fails_def read_card_def read_pages_step read_pages_done
        read_stride_def nfc_initiator_mifare_cmd_def exchange_def Let_def split_beta
        initial_globals_def overlay_ev1_def overlay_ntag_def count_pages)
  have c: "uiReadPages (snd (snd (read_card h (second_stride_fails inp)))) = 4"
    by (simp add: second_stride_fails_def read_card_def read_pages_step read_pages_done
        read_stride_def nfc_initiator_mifare_cmd_def exchange_def Let_def split_beta
        initial_globals_def overlay_ev1_def overlay_ntag_def count_pages)
  have d: "map (mtDump (snd (snd (read_card h (second_stride_fails inp)))))
       [16, 31, 32, 47, 48, 63] = [0, 0, 17, 32, 33, 48]"
    by (simp add: second_stride_fails_def read_card_def read_pages_dump overlay_ev1_def
        overlay_ntag_def read_pages_keeps initial_globals_def reply_at_def split_beta)
  from a b c d show ?thesis by blast
qed

text \<open>
  C6 (boundary stride sizing). For every stride start \<open>p\<close>, a multiple of 4 below the page
  count, whose block read delivers the 16 bytes \<open>d\<close>: after the read loop, of the 16
  dump bytes from offset \<open>p * 4\<close> on exactly the first \<open>min 4 (uiBlocks - p) * 4\<close> are the
  bytes of \<open>d\<close>, and the others are what the dump held before.
\<close>

theorem stride_copy_size:
  assumes "p mod 4 = 0" and "p < uiBlocks g"
    and "reply_at (replies (pnd g)) (p div 4) = Ok d" and "length d = 16" and "j < 16"
  shows "mtDump (snd (snd (read_pages 0 (bF, f, g)))) (p * 4 + j) =
           (if j < min 4 (uiBlocks g - p) * 4 then d ! j else mtDump g (p * 4 + j))"
proof -
  obtain k where k: "p = 4 * k" using assms(1) by (auto simp: mod_eq_0_iff_dvd)
  have a: "(p * 4 + j) div 16 = p div 4"
    using assms(5) by (simp add: k)
  have b: "(p * 4 + j) mod 16 = j"
    using assms(5) by (simp add: k)
  have c: "p * 4 + j < 4 * uiBlocks g \<longleftrightarrow> j < min 4 (uiBlocks g - p) * 4"
    using assms(2,5) by (simp add: min_def) linarith
  have "mtDump (snd (snd (read_pages 0 (bF, f, g)))) (p * 4 + j) =
     (if p * 4 + j < 4 * uiBlocks g then d ! j else mtDump g (p * 4 + j))"
    using assms(3,4) by (simp add: read_pages_dump a b)
  then show ?thesis by (simp only: c)
qed

text \<open>
  With 41 pages the stride at page 40 copies 4 bytes: byte 3 of the block read arrives
  at offset 163, offset 164 keeps its \<open>0xFF\<close>.
\<close>

theorem stride_copy_size_witness:
  "mtDump (snd (snd (read_pages 0 (False, 0, last_stride_of_41)))) 163 = 4
   \<and> mtDump (snd (snd (read_pages 0 (False, 0, last_stride_of_41)))) 164 = 0xFF"
  using
    stride_copy_size [of 40 last_stride_of_41
      "[1, 2, 3, 4, 5, 6, 7, 8, 9, 10, 11, 12, 13, 14, 15, 16]" 3 False 0]
    stride_copy_size [of 40 last_stride_of_41
      "[1, 2, 3, 4, 5, 6, 7, 8, 9, 10, 11, 12, 13, 14, 15, 16]" 4 False 0]
  by (simp add: last_stride_of_41_def initial_globals_def reply_at_def)

text \<open>
  C8 (UL11 secret overlay placement), as the code has it. \<^verbatim>\<open>mtDump.ul[4]\<close> is the fifth
  16-byte block, pages 16 to 19, not page 4. With the password field at offset 8 and the
  PACK field at offset 12 of the configuration block, as in libnfc's \<^verbatim>\<open>mifare.h\<close>, a
  fully successful read of a UL11 tag with password AA BB CC DD and PACK EE FF returns
  true, leaves AA BB CC DD in page 18 (bytes 72 to 75) and EE FF in the first two bytes
  of page 19 (bytes 76 and 77), and leaves in pages 4 and 5 the bytes that the second
  block read delivered.
\<close>

theorem ul11_secrets_placement:
  assumes "iEV1Type g = EV1_UL11" and "iNTAGType g = NTAG_NONE" and "uiBlocks g = 20"
    and "iPWD g = [0xAA, 0xBB, 0xCC, 0xDD]" and "iPACK g = [0xEE, 0xFF]"
    and "mbc11_pwd h = 8" and "mbc11_pack h = 12"
    and "replies (pnd g) = Ok d0 # Ok d1 # Ok d2 # Ok d3 # Ok d4 # rs"
    and "length d0 = 16" and "length d1 = 16" and "length d2 = 16" and "length d3 = 16"
    and "length d4 = 16"
  shows "fst (read_card h g)
     \<and> map (mtDump (snd (snd (read_card h g)))) [72, 73, 74, 75] = [0xAA, 0xBB, 0xCC, 0xDD]
     \<and> map (mtDump (snd (snd (read_card h g)))) [76, 77] = [0xEE, 0xFF]
     \<and> map (mtDump (snd (snd (read_card h g)))) [16, 17, 18, 19] = take 4 d1
     \<and> map (mtDump (snd (snd (read_card h g)))) [20, 21] = take 2 (drop 4 d1)"
proof -
  have ok: "\<forall>k. 0 + 4 * k < uiBlocks (snd (snd (False, 0::nat, g))) \<longrightarrow>
        block_read_ok (reply_at (replies (pnd (snd (snd (False, 0::nat, g))))) k)"
  proof (intro allI impI)
    fix k
    assume "0 + 4 * k < uiBlocks (snd (snd (False, 0::nat, g)))"
    then have "k < 5" using assms(3) by simp
    then have "k = 0 \<or> k = 1 \<or> k = 2 \<or> k = 3 \<or> k = 4" by linarith
    then show "block_read_ok (reply_at (replies (pnd (snd (snd (False, 0::nat, g))))) k)"
      using assms(8-13) by (auto simp: reply_at_def block_read_ok_def)
  qed
  have flag: "\<not> fst (read_pages 0 (False, 0, g))"
    by (rule read_pages_flag [OF _ ok]) simp
  have keep: "iEV1Type (snd (snd (read_pages 0 (False, 0, g)))) = EV1_UL11"
    "iNTAGType (snd (snd (read_pages 0 (False, 0, g)))) = NTAG_NONE"
    "iPWD (snd (snd (read_pages 0 (False, 0, g)))) = [0xAA, 0xBB, 0xCC, 0xDD]"
    "iPACK (snd (snd (read_pages 0 (False, 0, g)))) = [0xEE, 0xFF]"
    using assms(1,2,4,5) by (simp_all add: read_pages_keeps)
  have dump: "\<And>i. mtDump (snd (snd (read_card h g))) i =
     (if 76 \<le> i \<and> i < 78 then [0xEE, 0xFF] ! (i - 76)
      else if 72 \<le> i \<and> i < 76 then [0xAA, 0xBB, 0xCC, 0xDD] ! (i - 72)
      else mtDump (snd (snd (read_pages 0 (False, 0, g)))) i)"
    using keep assms(6,7) by (simp add: read_card_def split_beta overlay_ul11)
  have d1: "take 4 d1 = [d1 ! 0, d1 ! 1, d1 ! 2, d1 ! 3]"
    "take 2 (drop 4 d1) = [d1 ! 4, d1 ! 5]"
    using assms(10) by (auto simp: list_eq_iff_nth_eq less_Suc_eq numeral_eq_Suc nth_Cons')
  show ?thesis
    using flag assms(3,8,10)
    by (simp add: dump d1 read_pages_dump reply_at_def) (simp add: read_card_def split_beta)
qed

theorem ul11_secrets_placement_witness:
  "fst (read_card libnfc_mifare_h ul11_tag)
   \<and> map (mtDump (snd (snd (read_card libnfc_mifare_h ul11_tag)))) [72, 73, 74, 75]
       = [0xAA, 0xBB, 0xCC, 0xDD]
   \<and> map (mtDump (snd (snd (read_card libnfc_mifare_h ul11_tag)))) [76, 77] = [0xEE, 0xFF]
   \<and> map (mtDump (snd (snd (read_card libnfc_mifare_h ul11_tag)))) [16, 17, 18, 19]
       = [17, 18, 19, 20]
   \<and> map (mtDump (snd (snd (read_card libnfc_mifare_h ul11_tag)))) [20, 21] = [21, 22]"
  using ul11_secrets_placement [of ul11_tag libnfc_mifare_h
      "[1, 2, 3, 4, 5, 6, 7, 8, 9, 10, 11, 12, 13, 14, 15, 16]"
      "[17, 18, 19, 20, 21, 22, 23, 24, 25, 26, 27, 28, 29, 30, 31, 32]"
      "[33, 34, 35, 36, 37, 38, 39, 40, 41, 42, 43, 44, 45, 46, 47, 48]"
      "[49, 50, 51, 52, 53, 54, 55, 56, 57, 58, 59, 60, 61, 62, 63, 64]"
      "[65, 66, 67, 68, 69, 70, 71, 72, 73, 74, 75, 76, 77, 78, 79, 80]" "[]"]
  by (simp add: ul11_tag_def initial_globals_def libnfc_mifare_h_def)

text \<open>
  C8 as the specification states it fails on that tag: after the read, page 4 holds the bytes
  17 18 19 20 that the tag delivered for it, not the password, and page 5 begins with
  21 22, not with the PACK.
\<close>

theorem ul11_secrets_not_in_page_4_counterexample:
  "fst (read_card libnfc_mifare_h ul11_tag)
   \<and> map (mtDump (snd (snd (read_card libnfc_mifare_h ul11_tag)))) [16, 17, 18, 19]
       \<noteq> [0xAA, 0xBB, 0xCC, 0xDD]
   \<and> map (mtDump (snd (snd (read_card libnfc_mifare_h ul11_tag)))) [20, 21] \<noteq> [0xEE, 0xFF]"
proof -
  have ok: "\<forall>k. 0 + 4 * k < uiBlocks (snd (snd (False, 0::nat, ul11_tag))) \<longrightarrow>
        block_read_ok (reply_at (replies (pnd (snd (snd (False, 0::nat, ul11_tag))))) k)"
  proof (intro allI impI)
    fix k
    assume "0 + 4 * k < uiBlocks (snd (snd (False, 0::nat, ul11_tag)))"
    then have "k < 5" by (simp add: ul11_tag_def)
    then have "k = 0 \<or> k = 1 \<or> k = 2 \<or> k = 3 \<or> k = 4" by linarith
    then show "block_read_ok (reply_at (replies (pnd (snd (snd (False, 0::nat, ul11_tag))))) k)"
      by (auto simp: reply_at_def block_read_ok_def ul11_tag_def initial_globals_def)
  qed
  have "\<not> fst (read_pages 0 (False, 0, ul11_tag))"
    by (rule read_pages_flag [OF _ ok]) simp
  then have a: "fst (read_card libnfc_mifare_h ul11_tag)"
    by (simp add: read_card_def split_beta)
  have b: "map (mtDump (snd (snd (read_card libnfc_mifare_h ul11_tag)))) [16, 17, 18, 19]
       = [17, 18, 19, 20]"
    by (simp add: read_card_def split_beta overlay_ul11 read_pages_keeps read_pages_dump
        reply_at_def ul11_tag_def initial_globals_def libnfc_mifare_h_def)
  have c: "map (mtDump (snd (snd (read_card libnfc_mifare_h ul11_tag)))) [20, 21] = [21, 22]"
    by (simp add: read_card_def split_beta overlay_ul11 read_pages_keeps read_pages_dump
        reply_at_def ul11_tag_def initial_globals_def libnfc_mifare_h_def)
  show ?thesis unfolding b c using a by simp
qed

lemma small_nats:
  "(2::nat) = Suc (Suc 0)" "(3::nat) = Suc (Suc (Suc 0))" "(4::nat) = Suc (Suc (Suc (Suc 0)))"
  "(5::nat) = Suc (Suc (Suc (Suc (Suc 0))))" "(6::nat) = Suc (Suc (Suc (Suc (Suc (Suc 0)))))"
  by simp_all

lemma exchange_alt:
  "exchange c d = (reply_at (replies d) 0,
     d\<lparr>replies := tl (replies d), calls := calls d @ [(c, reply_at (replies d) 0)]\<rparr>)"
  by (cases "replies d") (simp_all add: exchange_def reply_at_def)

lemma adv_simps [simp]:
  "replies (adv c d) = tl (replies d)"
  "calls (adv c d) = calls d @ [(c, reply_at (replies d) 0)]"
  by (simp_all add: adv_def)

lemma set_property_bool_fst:
  "fst (set_property_bool p v g) = succeeded (SetProperty p v, reply_at (replies (pnd g)) 0)"
  by (simp add: set_property_bool_def exchange_alt succeeded_def split: reply.splits)

lemma set_property_bool_snd:
  "snd (set_property_bool p v g) = g\<lparr>pnd := adv (SetProperty p v) (pnd g)\<rparr>"
  by (simp add: set_property_bool_def exchange_alt adv_def split: reply.splits)

lemma transmit_bytes_fst:
  "fst (transmit_bytes tx g) = succeeded (TransceiveBytes tx, reply_at (replies (pnd g)) 0)"
  by (simp add: transmit_bytes_def exchange_alt succeeded_def split: reply.splits)

lemma transmit_bytes_pnd:
  "pnd (snd (transmit_bytes tx g)) = adv (TransceiveBytes tx) (pnd g)"
  by (simp add: transmit_bytes_def exchange_alt adv_def split: reply.splits)

lemma transmit_bits_fst:
  "fst (transmit_bits tx n g) = succeeded (TransceiveBits tx n, reply_at (replies (pnd g)) 0)"
  by (simp add: transmit_bits_def exchange_alt succeeded_def split: reply.splits)

lemma transmit_bits_pnd:
  "pnd (snd (transmit_bits tx n g)) = adv (TransceiveBits tx n) (pnd g)"
  by (simp add: transmit_bits_def exchange_alt adv_def split: reply.splits)

lemma raw_mode_start_fst:
  "fst (raw_mode_start g) =
     (succeeded (SetProperty NP_HANDLE_CRC False, reply_at (replies (pnd g)) 0)
      \<and> succeeded (SetProperty NP_EASY_FRAMING False, reply_at (replies (pnd g)) 1))"
  by (simp add: raw_mode_start_def set_property_bool_fst set_property_bool_snd reply_at_tl
      split_beta)

lemma raw_mode_start_snd:
  "snd (raw_mode_start g) =
     g\<lparr>pnd := if succeeded (SetProperty NP_HANDLE_CRC False, reply_at (replies (pnd g)) 0)
      then adv (SetProperty NP_EASY_FRAMING False) (adv (SetProperty NP_HANDLE_CRC False) (pnd g))
      else adv (SetProperty NP_HANDLE_CRC False) (pnd g)\<rparr>"
  by (simp add: raw_mode_start_def set_property_bool_fst set_property_bool_snd reply_at_tl
      split_beta)

lemma raw_mode_end_fst:
  "fst (raw_mode_end g) =
     (succeeded (SetProperty NP_HANDLE_CRC True, reply_at (replies (pnd g)) 0)
      \<and> succeeded (SetProperty NP_EASY_FRAMING True, reply_at (replies (pnd g)) 1))"
  by (simp add: raw_mode_end_def set_property_bool_fst set_property_bool_snd reply_at_tl
      split_beta)

lemma raw_mode_end_pnd:
  "pnd (snd (raw_mode_end g)) =
     (if succeeded (SetProperty NP_HANDLE_CRC True, reply_at (replies (pnd g)) 0)
      then adv (SetProperty NP_EASY_FRAMING True) (adv (SetProperty NP_HANDLE_CRC True) (pnd g))
      else adv (SetProperty NP_HANDLE_CRC True) (pnd g))"
  by (simp add: raw_mode_end_def set_property_bool_fst set_property_bool_snd reply_at_tl
      split_beta)

lemma issued_adv [simp]:
  "issued d (adv c d') = issued d d' @ [(c, reply_at (replies d') 0)]" if "length (calls d) \<le> length (calls d')"
  using that by (simp add: issued_def)

lemma issued_self [simp]: "issued d d = []"
  by (simp add: issued_def)

lemma length_calls_adv [simp]: "length (calls (adv c d)) = Suc (length (calls d))"
  by simp

lemma unlock_card_fst:
  assumes "abtHalt g = [0x50, 0x00, a, b]"
  shows "fst (unlock_card crc g) =
     (succeeded (SetProperty NP_HANDLE_CRC False, reply_at (replies (pnd g)) 0)
      \<and> succeeded (SetProperty NP_EASY_FRAMING False, reply_at (replies (pnd g)) 1)
      \<and> succeeded (TransceiveBits [0x40] 7, reply_at (replies (pnd g)) 3)
      \<and> succeeded (TransceiveBytes [0x43], reply_at (replies (pnd g)) 4)
      \<and> succeeded (SetProperty NP_HANDLE_CRC True, reply_at (replies (pnd g)) 5)
      \<and> succeeded (SetProperty NP_EASY_FRAMING True, reply_at (replies (pnd g)) 6))"
  using assms unfolding small_nats
  by (simp add: unlock_card_def raw_mode_start_fst raw_mode_start_snd raw_mode_end_fst
      transmit_bytes_fst transmit_bytes_pnd transmit_bits_fst transmit_bits_pnd
      abtUnlock1_def abtUnlock2_def Let_def split_beta reply_at_tl)
     blast

lemma unlock_card_calls:
  assumes "abtHalt g = [0x50, 0x00, a, b]"
  shows "calls (pnd (snd (unlock_card crc g))) = calls (pnd g) @
     take (if \<not> succeeded (SetProperty NP_HANDLE_CRC False, reply_at (replies (pnd g)) 0) then 1
           else if \<not> succeeded (SetProperty NP_EASY_FRAMING False, reply_at (replies (pnd g)) 1) then 2
           else if \<not> succeeded (TransceiveBits [0x40] 7, reply_at (replies (pnd g)) 3) then 4
           else if \<not> succeeded (TransceiveBytes [0x43], reply_at (replies (pnd g)) 4) then 5
           else if \<not> succeeded (SetProperty NP_HANDLE_CRC True, reply_at (replies (pnd g)) 5) then 6
           else Suc 6)
       (zip (backdoor_sequence (crc [0x50, 0x00])) (map (reply_at (replies (pnd g))) [0, 1, 2, 3, 4, 5, 6]))"
  using assms unfolding small_nats
  by (simp add: unlock_card_def raw_mode_start_fst raw_mode_start_snd raw_mode_end_fst raw_mode_end_pnd
      transmit_bytes_fst transmit_bytes_pnd transmit_bits_fst transmit_bits_pnd
      abtUnlock1_def abtUnlock2_def Let_def split_beta reply_at_tl backdoor_sequence_def
      iso14443a_crc_append_def memcpy_at_def)

lemma mifare_cmd_fst:
  "fst (nfc_initiator_mifare_cmd mc page g) =
     succeeded (MifareCmd mc page (mp g), reply_at (replies (pnd g)) 0)"
  by (simp add: nfc_initiator_mifare_cmd_def exchange_alt succeeded_def
      split: reply.splits mifare_cmd.splits)

lemma mifare_cmd_pnd:
  "pnd (snd (nfc_initiator_mifare_cmd mc page g)) = adv (MifareCmd mc page (mp g)) (pnd g)"
  by (simp add: nfc_initiator_mifare_cmd_def exchange_alt adv_def
      split: reply.splits mifare_cmd.splits)

lemma mifare_cmd_abtHalt:
  "abtHalt (snd (nfc_initiator_mifare_cmd mc page g)) = abtHalt g"
  by (simp add: nfc_initiator_mifare_cmd_def exchange_alt
      split: reply.splits mifare_cmd.splits)

declare magic_write.simps [simp del]

lemma is_page_cmd_simps [simp]:
  "is_page_cmd (MifareCmd mc p d, r)"
  "\<not> is_page_cmd (SetProperty np v, r)"
  "\<not> is_page_cmd (TransceiveBytes tx, r)"
  "\<not> is_page_cmd (TransceiveBits tx n, r)"
  "\<not> is_page_cmd (SelectPassive, r)"
  by (simp_all add: is_page_cmd_def)

lemma magic_write_facts:
  "abtHalt (snd (magic_write page b0 dw g)) = abtHalt g
   \<and> (\<not> dw \<longrightarrow> \<not> fst (magic_write page b0 dw g))
   \<and> (\<exists>ws. calls (pnd (snd (magic_write page b0 dw g))) = calls (pnd g) @ ws
          \<and> list_all is_page_cmd ws)"
proof (induction page b0 dw g rule: magic_write.induct)
  case (1 page b0 dw g)
  show ?case
  proof (cases "page \<le> 2")
    case False
    then show ?thesis by (subst (1 2 3) magic_write.simps) simp
  next
    case True
    let ?g1 = "g\<lparr>mp := memcpy_at (mp g) 0 (drop (page * 4) b0) 4\<rparr>"
    let ?r = "nfc_initiator_mifare_cmd MC_WRITE page ?g1"
    show ?thesis
    proof (cases "fst ?r")
      case False
      then show ?thesis using True
        by (subst (1 2 3) magic_write.simps)
           (simp add: split_beta mifare_cmd_abtHalt mifare_cmd_pnd)
    next
      case ok: True
      have IH: "abtHalt (snd (magic_write (page + 1) b0 dw (snd ?r))) = abtHalt (snd ?r)
        \<and> (\<not> dw \<longrightarrow> \<not> fst (magic_write (page + 1) b0 dw (snd ?r)))
        \<and> (\<exists>ws. calls (pnd (snd (magic_write (page + 1) b0 dw (snd ?r)))) = calls (pnd (snd ?r)) @ ws
          \<and> list_all is_page_cmd ws)"
        using "1.IH"[OF True refl refl _ ] ok by (metis prod.collapse)
      then obtain ws where ws: "calls (pnd (snd (magic_write (page + 1) b0 dw (snd ?r)))) = calls (pnd (snd ?r)) @ ws"
        "list_all is_page_cmd ws" by blast
      have step: "magic_write page b0 dw g = magic_write (page + 1) b0 dw (snd ?r)"
        using True ok by (subst magic_write.simps) (simp add: split_beta)
      show ?thesis unfolding step using IH ws
        by (simp add: mifare_cmd_abtHalt mifare_cmd_pnd)
    qed
  qed
qed

lemma dropWhile_all: "list_all P xs \<Longrightarrow> dropWhile P (xs @ ys) = dropWhile P ys"
  by (induction xs) auto

lemma backdoor_verdict:
  assumes "n = (if \<not> ok0 then 1 else if \<not> ok1 then 2 else if \<not> ok3 then 4
                else if \<not> ok4 then 5 else if \<not> ok5 then 6 else Suc 6)"
    and "us = take n (zip (backdoor_sequence c) [r0, r1, r2, r3, r4, r5, r6])"
    and "ok0 = succeeded (SetProperty NP_HANDLE_CRC False, r0)"
    and "ok1 = succeeded (SetProperty NP_EASY_FRAMING False, r1)"
    and "ok3 = succeeded (TransceiveBits [0x40] 7, r3)"
    and "ok4 = succeeded (TransceiveBytes [0x43], r4)"
    and "ok5 = succeeded (SetProperty NP_HANDLE_CRC True, r5)"
    and "ok6 = succeeded (SetProperty NP_EASY_FRAMING True, r6)"
  shows "us \<noteq> [] \<and> dropWhile is_page_cmd us = us
     \<and> map fst us = take (length us) (backdoor_sequence c)
     \<and> ((ok0 \<and> ok1 \<and> ok3 \<and> ok4 \<and> ok5 \<and> ok6) \<longleftrightarrow>
          map fst us = backdoor_sequence c
          \<and> (\<forall>e \<in> set us. succeeded e \<or> fst e = TransceiveBytes [0x50, 0x00, fst c, snd c]))"
  using assms(3-8) unfolding assms(1,2)
  by (simp add: backdoor_sequence_def)

text \<open>
  C5 (magic-unlock fallback), as the code has it. When the block read of pages 0 to 2
  fails, the calls that \<^verbatim>\<open>check_magic\<close> makes after its page commands are a non-empty
  initial part of the backdoor sequence: raw mode entered (two settings), the halt frame,
  the 7-bit frame 0x40, the 1-byte frame 0x43, raw mode left (two settings). It reports
  success if and only if it made the whole sequence and every call of it other than the
  halt frame succeeded, the four settings included.
\<close>

theorem magic_unlock_after_failed_read:
  assumes "\<not> block_read_ok (reply_at (replies (pnd g)) 0)"
    and "abtHalt g = [0x50, 0x00, a, b]"
  shows "dropWhile is_page_cmd (issued (pnd g) (pnd (snd (check_magic stack crc g)))) \<noteq> []
     \<and> map fst (dropWhile is_page_cmd (issued (pnd g) (pnd (snd (check_magic stack crc g))))) =
         take (length (dropWhile is_page_cmd (issued (pnd g) (pnd (snd (check_magic stack crc g))))))
           (backdoor_sequence (crc [0x50, 0x00]))
     \<and> (fst (check_magic stack crc g) \<longleftrightarrow>
          map fst (dropWhile is_page_cmd (issued (pnd g) (pnd (snd (check_magic stack crc g))))) =
            backdoor_sequence (crc [0x50, 0x00])
          \<and> (\<forall>e \<in> set (dropWhile is_page_cmd
                      (issued (pnd g) (pnd (snd (check_magic stack crc g))))).
                succeeded e
                \<or> fst e = TransceiveBytes [0x50, 0x00, fst (crc [0x50, 0x00]), snd (crc [0x50, 0x00])]))"
proof -
  let ?r = "nfc_initiator_mifare_cmd MC_READ 0 g"
  let ?w = "magic_write 0 stack False (snd ?r)"
  have rd: "\<not> fst ?r"
    using assms(1) by (simp add: mifare_cmd_fst succeeded_def block_read_ok_def split: reply.splits)
  have w: "abtHalt (snd ?w) = abtHalt (snd ?r)" "\<not> fst ?w"
    using magic_write_facts [of 0 stack False "snd ?r"] by simp_all
  obtain ws where ws: "calls (pnd (snd ?w)) = calls (pnd (snd ?r)) @ ws" "list_all is_page_cmd ws"
    using magic_write_facts [of 0 stack False "snd ?r"] by blast
  have cm: "check_magic stack crc g = unlock_card crc (snd ?w)"
    using rd w(2) by (simp add: check_magic_def split_beta)
  have halt: "abtHalt (snd ?w) = [0x50, 0x00, a, b]"
    using w(1) assms(2) by (simp add: mifare_cmd_abtHalt)
  define rs where "rs = replies (pnd (snd ?w))"
  define n where "n = (if \<not> succeeded (SetProperty NP_HANDLE_CRC False, reply_at rs 0) then 1
           else if \<not> succeeded (SetProperty NP_EASY_FRAMING False, reply_at rs 1) then 2
           else if \<not> succeeded (TransceiveBits [0x40] 7, reply_at rs 3) then 4
           else if \<not> succeeded (TransceiveBytes [0x43], reply_at rs 4) then 5
           else if \<not> succeeded (SetProperty NP_HANDLE_CRC True, reply_at rs 5) then 6
           else Suc 6)"
  define us where "us = take n (zip (backdoor_sequence (crc [0x50, 0x00]))
      [reply_at rs 0, reply_at rs 1, reply_at rs 2, reply_at rs 3, reply_at rs 4, reply_at rs 5,
       reply_at rs 6])"
  have v: "us \<noteq> [] \<and> dropWhile is_page_cmd us = us
     \<and> map fst us = take (length us) (backdoor_sequence (crc [0x50, 0x00]))
     \<and> ((succeeded (SetProperty NP_HANDLE_CRC False, reply_at rs 0)
          \<and> succeeded (SetProperty NP_EASY_FRAMING False, reply_at rs 1)
          \<and> succeeded (TransceiveBits [0x40] 7, reply_at rs 3)
          \<and> succeeded (TransceiveBytes [0x43], reply_at rs 4)
          \<and> succeeded (SetProperty NP_HANDLE_CRC True, reply_at rs 5)
          \<and> succeeded (SetProperty NP_EASY_FRAMING True, reply_at rs 6)) \<longleftrightarrow>
          map fst us = backdoor_sequence (crc [0x50, 0x00])
          \<and> (\<forall>e \<in> set us. succeeded e
                \<or> fst e = TransceiveBytes [0x50, 0x00, fst (crc [0x50, 0x00]), snd (crc [0x50, 0x00])]))"
    by (rule backdoor_verdict [OF n_def us_def refl refl refl refl refl refl])
  have calls: "calls (pnd (snd (check_magic stack crc g))) =
      calls (pnd g) @ ((MifareCmd MC_READ 0 (mp g), reply_at (replies (pnd g)) 0) # ws) @ us"
    unfolding cm unlock_card_calls [OF halt] ws
    by (simp add: mifare_cmd_pnd us_def n_def rs_def)
  have iss: "dropWhile is_page_cmd (issued (pnd g) (pnd (snd (check_magic stack crc g)))) = us"
    using ws(2) v unfolding issued_def calls by (simp add: dropWhile_all)
  have res: "fst (check_magic stack crc g) =
      (succeeded (SetProperty NP_HANDLE_CRC False, reply_at rs 0)
          \<and> succeeded (SetProperty NP_EASY_FRAMING False, reply_at rs 1)
          \<and> succeeded (TransceiveBits [0x40] 7, reply_at rs 3)
          \<and> succeeded (TransceiveBytes [0x43], reply_at rs 4)
          \<and> succeeded (SetProperty NP_HANDLE_CRC True, reply_at rs 5)
          \<and> succeeded (SetProperty NP_EASY_FRAMING True, reply_at rs 6))"
    unfolding cm unlock_card_fst [OF halt] rs_def by simp
  show ?thesis unfolding iss res using v by blast
qed

lemma replicate_zeros:
  "replicate 16 x = [x, x, x, x, x, x, x, x, x, x, x, x, x, x, x, x]"
  "replicate 12 x = [x, x, x, x, x, x, x, x, x, x, x, x]"
  by (simp_all add: numeral_eq_Suc)

text \<open>
  C5 as the specification states it fails where the reader refuses to re-enable CRC
  handling: after the failed block read the tool still tries to write page 0, with the bytes its
  uninitialised array happens to hold, and although both the 7-bit and the 1-byte frame
  are transmitted it reports failure.
\<close>

theorem magic_unlock_counterexample:
  "\<not> fst (check_magic stale_stack (\<lambda>_. (0, 0)) backdoor_exit_fails)
   \<and> calls (pnd (snd (check_magic stale_stack (\<lambda>_. (0, 0)) backdoor_exit_fails))) =
     [(MifareCmd MC_READ 0 [0, 0, 0, 0, 0, 0, 0, 0, 0, 0, 0, 0, 0, 0, 0, 0], Fail),
      (MifareCmd MC_WRITE 0 [0xDE, 0xAD, 0xBE, 0xEF, 0, 0, 0, 0, 0, 0, 0, 0, 0, 0, 0, 0], Fail),
      (SetProperty NP_HANDLE_CRC False, Ok []), (SetProperty NP_EASY_FRAMING False, Ok []),
      (TransceiveBytes [0x50, 0x00, 0, 0], Fail), (TransceiveBits [0x40] 7, Ok []),
      (TransceiveBytes [0x43], Ok []), (SetProperty NP_HANDLE_CRC True, Fail)]"
  by (simp add: check_magic_def magic_write.simps unlock_card_def eval_defs
      stale_stack_def backdoor_exit_fails_def replicate_zeros)

theorem magic_unlock_after_failed_read_witness:
  "fst (check_magic stale_stack (\<lambda>_. (0, 0)) backdoor_accepted)
   \<and> map fst (dropWhile is_page_cmd
        (issued (pnd backdoor_accepted)
          (pnd (snd (check_magic stale_stack (\<lambda>_. (0, 0)) backdoor_accepted))))) =
       backdoor_sequence (0, 0)"
  using magic_unlock_after_failed_read [of backdoor_accepted 0 0 stale_stack "\<lambda>_. (0, 0)"]
  by (simp add: check_magic_def magic_write.simps unlock_card_def eval_defs
      stale_stack_def backdoor_accepted_def issued_def backdoor_sequence_def is_page_cmd_def
      replicate_zeros)

declare write_pages.simps [simp del]

lemma write_page_keeps:
  "uiBlocks (snd (write_page page l g)) = uiBlocks g"
  "iEV1Type (snd (write_page page l g)) = iEV1Type g"
  "iNTAGType (snd (write_page page l g)) = iNTAGType g"
  by (simp_all add: write_page_def nfc_initiator_mifare_cmd_def exchange_alt Let_def split_beta
      split: reply.splits)

lemma write_page_accounted:
  "pages_accounted (fst (write_page page l g)) = Suc (pages_accounted l)"
  by (simp add: write_page_def pages_accounted_def print_success_or_failure_def Let_def
      split_beta)

lemma write_page_calls:
  "\<exists>d. calls (pnd (snd (write_page page l g))) =
     calls (pnd g) @ [(MifareCmd MC_WRITE page d, reply_at (replies (pnd g)) 0)]"
  by (simp add: write_page_def mifare_cmd_pnd Let_def split_beta)

lemma select_keeps:
  "uiBlocks (snd (select_passive_target g)) = uiBlocks g"
  "iEV1Type (snd (select_passive_target g)) = iEV1Type g"
  "iNTAGType (snd (select_passive_target g)) = iNTAGType g"
  "calls (pnd (snd (select_passive_target g))) =
     calls (pnd g) @ [(SelectPassive, reply_at (replies (pnd g)) 0)]"
  by (simp_all add: select_passive_target_def exchange_alt split: reply.splits)

lemma loop_call_mono:
  "loop_call otp lock dyn ev1 ntag (Suc page) e \<Longrightarrow> loop_call otp lock dyn ev1 ntag page e"
  by (auto simp: loop_call_def split: call.splits mifare_cmd.splits)

lemma loop_call_mono_all:
  "list_all (loop_call otp lock dyn ev1 ntag (Suc page)) ws \<Longrightarrow>
   list_all (loop_call otp lock dyn ev1 ntag page) ws"
  by (induction ws) (auto intro: loop_call_mono)

lemma write_pages_done:
  "\<not> page < uiBlocks g \<Longrightarrow> write_pages otp lock dyn page l g = (True, l, g)"
  by (subst write_pages.simps) simp

lemma write_pages_skip:
  "page < uiBlocks g \<Longrightarrow> skips otp lock dyn g page \<Longrightarrow>
   write_pages otp lock dyn page l g =
     write_pages otp lock dyn (page + 1) (l\<lparr>uiSkippedPages := uiSkippedPages l + 1\<rparr>) g"
  by (subst write_pages.simps) (auto simp: skips_def)

lemma write_pages_write:
  "page < uiBlocks g \<Longrightarrow> \<not> skips otp lock dyn g page \<Longrightarrow> \<not> bFailure l \<Longrightarrow>
   write_pages otp lock dyn page l g =
     write_pages otp lock dyn (page + 1) (fst (write_page page l g)) (snd (write_page page l g))"
  by (subst write_pages.simps) (auto simp: skips_def split_beta)

lemma write_pages_reselect:
  "page < uiBlocks g \<Longrightarrow> \<not> skips otp lock dyn g page \<Longrightarrow> bFailure l \<Longrightarrow>
   write_pages otp lock dyn page l g =
     (if \<not> fst (select_passive_target g) then (False, l, snd (select_passive_target g))
      else write_pages otp lock dyn (page + 1)
        (fst (write_page page (l\<lparr>bFailure := False\<rparr>) (snd (select_passive_target g))))
        (snd (write_page page (l\<lparr>bFailure := False\<rparr>) (snd (select_passive_target g)))))"
  by (subst write_pages.simps) (auto simp: skips_def split_beta)

lemma pages_accounted_flag:
  "pages_accounted (l\<lparr>bFailure := b\<rparr>) = pages_accounted l"
  by (simp add: pages_accounted_def)

lemma write_pages_accounted:
  "fst (write_pages otp lock dyn page l g) \<Longrightarrow> page \<le> uiBlocks g \<Longrightarrow>
   pages_accounted (fst (snd (write_pages otp lock dyn page l g))) =
     pages_accounted l + (uiBlocks g - page)"
proof (induction "uiBlocks g - page" arbitrary: page l g)
  case 0
  then show ?case by (simp add: write_pages_done)
next
  case (Suc n)
  then have lt: "page < uiBlocks g" by simp
  show ?case
  proof (cases "skips otp lock dyn g page")
    case True
    have "pages_accounted (fst (snd (write_pages otp lock dyn (page + 1)
        (l\<lparr>uiSkippedPages := uiSkippedPages l + 1\<rparr>) g))) =
      pages_accounted (l\<lparr>uiSkippedPages := uiSkippedPages l + 1\<rparr>) + (uiBlocks g - (page + 1))"
      using Suc.prems Suc.hyps(2) lt True
      by (intro Suc.hyps(1)) (simp_all add: write_pages_skip)
    then show ?thesis using lt True by (simp add: write_pages_skip pages_accounted_def)
  next
    case False
    show ?thesis
    proof (cases "bFailure l")
      case nf: False
      let ?w = "write_page page l g"
      have "pages_accounted (fst (snd (write_pages otp lock dyn (page + 1) (fst ?w) (snd ?w)))) =
        pages_accounted (fst ?w) + (uiBlocks (snd ?w) - (page + 1))"
        using Suc.prems Suc.hyps(2) lt False nf
        by (intro Suc.hyps(1)) (simp_all add: write_pages_write write_page_keeps)
      then show ?thesis using lt False nf
        by (simp add: write_pages_write write_page_keeps write_page_accounted)
    next
      case f: True
      let ?s = "select_passive_target g"
      let ?w = "write_page page (l\<lparr>bFailure := False\<rparr>) (snd ?s)"
      have sel: "fst ?s" using Suc.prems(1) lt False f
        by (simp add: write_pages_reselect split: if_splits)
      have "pages_accounted (fst (snd (write_pages otp lock dyn (page + 1) (fst ?w) (snd ?w)))) =
        pages_accounted (fst ?w) + (uiBlocks (snd ?w) - (page + 1))"
        using Suc.prems Suc.hyps(2) lt False f sel
        by (intro Suc.hyps(1)) (simp_all add: write_pages_reselect write_page_keeps select_keeps)
      then show ?thesis using lt False f sel
        by (simp add: write_pages_reselect write_page_keeps select_keeps write_page_accounted
            pages_accounted_flag)
    qed
  qed
qed

lemma write_pages_calls:
  "\<exists>ws. calls (pnd (snd (snd (write_pages otp lock dyn page l g)))) = calls (pnd g) @ ws
      \<and> list_all (loop_call otp lock dyn (iEV1Type g) (iNTAGType g) page) ws"
proof (induction "uiBlocks g - page" arbitrary: page l g)
  case 0
  then show ?case by (simp add: write_pages_done)
next
  case (Suc n)
  then have lt: "page < uiBlocks g" by simp
  show ?case
  proof (cases "skips otp lock dyn g page")
    case True
    have "\<exists>ws. calls (pnd (snd (snd (write_pages otp lock dyn (page + 1)
        (l\<lparr>uiSkippedPages := uiSkippedPages l + 1\<rparr>) g)))) = calls (pnd g) @ ws
      \<and> list_all (loop_call otp lock dyn (iEV1Type g) (iNTAGType g) (page + 1)) ws"
      using Suc.hyps(2) by (intro Suc.hyps(1)) simp
    then show ?thesis using lt True
      by (auto simp: write_pages_skip intro: loop_call_mono_all)
  next
    case False
    have this_page: "\<And>d r. loop_call otp lock dyn (iEV1Type g) (iNTAGType g) page
        (MifareCmd MC_WRITE page d, r)"
      using False by (auto simp: loop_call_def skips_def)
    show ?thesis
    proof (cases "bFailure l")
      case nf: False
      let ?w = "write_page page l g"
      have "\<exists>ws. calls (pnd (snd (snd (write_pages otp lock dyn (page + 1) (fst ?w) (snd ?w))))) =
          calls (pnd (snd ?w)) @ ws
        \<and> list_all (loop_call otp lock dyn (iEV1Type (snd ?w)) (iNTAGType (snd ?w)) (page + 1)) ws"
        using Suc.hyps(2) by (intro Suc.hyps(1)) (simp add: write_page_keeps)
      then obtain ws where ws:
        "calls (pnd (snd (snd (write_pages otp lock dyn (page + 1) (fst ?w) (snd ?w))))) =
          calls (pnd (snd ?w)) @ ws"
        "list_all (loop_call otp lock dyn (iEV1Type g) (iNTAGType g) (Suc page)) ws"
        by (auto simp: write_page_keeps)
      obtain d where d: "calls (pnd (snd ?w)) =
          calls (pnd g) @ [(MifareCmd MC_WRITE page d, reply_at (replies (pnd g)) 0)]"
        using write_page_calls by blast
      show ?thesis using lt False nf ws d this_page
        by (simp add: write_pages_write loop_call_mono_all)
    next
      case f: True
      let ?s = "select_passive_target g"
      let ?w = "write_page page (l\<lparr>bFailure := False\<rparr>) (snd ?s)"
      show ?thesis
      proof (cases "fst ?s")
        case False
        then show ?thesis using lt \<open>\<not> skips otp lock dyn g page\<close> f
          by (simp add: write_pages_reselect select_keeps loop_call_def)
      next
        case True
        have "\<exists>ws. calls (pnd (snd (snd (write_pages otp lock dyn (page + 1) (fst ?w) (snd ?w))))) =
            calls (pnd (snd ?w)) @ ws
          \<and> list_all (loop_call otp lock dyn (iEV1Type (snd ?w)) (iNTAGType (snd ?w)) (page + 1)) ws"
          using Suc.hyps(2) by (intro Suc.hyps(1)) (simp add: write_page_keeps select_keeps)
        then obtain ws where ws:
          "calls (pnd (snd (snd (write_pages otp lock dyn (page + 1) (fst ?w) (snd ?w))))) =
            calls (pnd (snd ?w)) @ ws"
          "list_all (loop_call otp lock dyn (iEV1Type g) (iNTAGType g) (Suc page)) ws"
          by (auto simp: write_page_keeps select_keeps)
        obtain d where d: "calls (pnd (snd ?w)) =
            calls (pnd (snd ?s)) @ [(MifareCmd MC_WRITE page d, reply_at (replies (pnd (snd ?s))) 0)]"
          using write_page_calls by blast
        show ?thesis using lt \<open>\<not> skips otp lock dyn g page\<close> f True ws d this_page
          by (simp add: write_pages_reselect loop_call_mono_all select_keeps loop_call_def)
      qed
    qed
  qed
qed

lemma transmit_bytes_keeps [simp]:
  "uiBlocks (snd (transmit_bytes tx g)) = uiBlocks g"
  "iEV1Type (snd (transmit_bytes tx g)) = iEV1Type g"
  "iNTAGType (snd (transmit_bytes tx g)) = iNTAGType g"
  "iPWD (snd (transmit_bytes tx g)) = iPWD g"
  "iPACK (snd (transmit_bytes tx g)) = iPACK g"
  "mtDump (snd (transmit_bytes tx g)) = mtDump g"
  "abtHalt (snd (transmit_bytes tx g)) = abtHalt g"
  "abtEV1 (snd (transmit_bytes tx g)) = abtEV1 g"
  "wait_for_tag (snd (transmit_bytes tx g)) = wait_for_tag g"
  by (simp_all add: transmit_bytes_def exchange_alt split: reply.splits)

lemma transmit_bits_keeps [simp]:
  "uiBlocks (snd (transmit_bits tx n g)) = uiBlocks g"
  "iEV1Type (snd (transmit_bits tx n g)) = iEV1Type g"
  "iNTAGType (snd (transmit_bits tx n g)) = iNTAGType g"
  "iPWD (snd (transmit_bits tx n g)) = iPWD g"
  "iPACK (snd (transmit_bits tx n g)) = iPACK g"
  "mtDump (snd (transmit_bits tx n g)) = mtDump g"
  "abtHalt (snd (transmit_bits tx n g)) = abtHalt g"
  "abtEV1 (snd (transmit_bits tx n g)) = abtEV1 g"
  "wait_for_tag (snd (transmit_bits tx n g)) = wait_for_tag g"
  by (simp_all add: transmit_bits_def exchange_alt split: reply.splits)

lemma mifare_cmd_keeps [simp]:
  "uiBlocks (snd (nfc_initiator_mifare_cmd mc page g)) = uiBlocks g"
  "iEV1Type (snd (nfc_initiator_mifare_cmd mc page g)) = iEV1Type g"
  "iNTAGType (snd (nfc_initiator_mifare_cmd mc page g)) = iNTAGType g"
  "iPWD (snd (nfc_initiator_mifare_cmd mc page g)) = iPWD g"
  "iPACK (snd (nfc_initiator_mifare_cmd mc page g)) = iPACK g"
  "mtDump (snd (nfc_initiator_mifare_cmd mc page g)) = mtDump g"
  "abtHalt (snd (nfc_initiator_mifare_cmd mc page g)) = abtHalt g"
  "abtEV1 (snd (nfc_initiator_mifare_cmd mc page g)) = abtEV1 g"
  "wait_for_tag (snd (nfc_initiator_mifare_cmd mc page g)) = wait_for_tag g"
  by (simp_all add: nfc_initiator_mifare_cmd_def exchange_alt split: reply.splits mifare_cmd.splits)

lemma select_fields [simp]:
  "uiBlocks (snd (select_passive_target g)) = uiBlocks g"
  "iEV1Type (snd (select_passive_target g)) = iEV1Type g"
  "iNTAGType (snd (select_passive_target g)) = iNTAGType g"
  "iPWD (snd (select_passive_target g)) = iPWD g"
  "iPACK (snd (select_passive_target g)) = iPACK g"
  "mtDump (snd (select_passive_target g)) = mtDump g"
  "abtHalt (snd (select_passive_target g)) = abtHalt g"
  "abtEV1 (snd (select_passive_target g)) = abtEV1 g"
  "wait_for_tag (snd (select_passive_target g)) = wait_for_tag g"
  by (simp_all add: select_passive_target_def exchange_alt split: reply.splits)

lemma set_property_bool_keeps [simp]:
  "uiBlocks (snd (set_property_bool p v g)) = uiBlocks g"
  "iEV1Type (snd (set_property_bool p v g)) = iEV1Type g"
  "iNTAGType (snd (set_property_bool p v g)) = iNTAGType g"
  "iPWD (snd (set_property_bool p v g)) = iPWD g"
  "iPACK (snd (set_property_bool p v g)) = iPACK g"
  "mtDump (snd (set_property_bool p v g)) = mtDump g"
  "abtHalt (snd (set_property_bool p v g)) = abtHalt g"
  "abtEV1 (snd (set_property_bool p v g)) = abtEV1 g"
  "wait_for_tag (snd (set_property_bool p v g)) = wait_for_tag g"
  by (simp_all add: set_property_bool_def exchange_alt split: reply.splits)

lemma lib_call_keeps [simp]:
  "uiBlocks (snd (lib_call c g)) = uiBlocks g"
  "iEV1Type (snd (lib_call c g)) = iEV1Type g"
  "iNTAGType (snd (lib_call c g)) = iNTAGType g"
  "iPWD (snd (lib_call c g)) = iPWD g"
  "iPACK (snd (lib_call c g)) = iPACK g"
  "mtDump (snd (lib_call c g)) = mtDump g"
  "abtHalt (snd (lib_call c g)) = abtHalt g"
  "abtEV1 (snd (lib_call c g)) = abtEV1 g"
  "wait_for_tag (snd (lib_call c g)) = wait_for_tag g"
  by (simp_all add: lib_call_def exchange_alt split: reply.splits)

lemma raw_mode_start_keeps [simp]:
  "uiBlocks (snd (raw_mode_start g)) = uiBlocks g"
  "iEV1Type (snd (raw_mode_start g)) = iEV1Type g"
  "iNTAGType (snd (raw_mode_start g)) = iNTAGType g"
  "iPWD (snd (raw_mode_start g)) = iPWD g"
  "iPACK (snd (raw_mode_start g)) = iPACK g"
  "mtDump (snd (raw_mode_start g)) = mtDump g"
  "abtHalt (snd (raw_mode_start g)) = abtHalt g"
  "abtEV1 (snd (raw_mode_start g)) = abtEV1 g"
  "wait_for_tag (snd (raw_mode_start g)) = wait_for_tag g"
  by (simp_all add: raw_mode_start_def split_beta)

lemma raw_mode_end_keeps [simp]:
  "uiBlocks (snd (raw_mode_end g)) = uiBlocks g"
  "iEV1Type (snd (raw_mode_end g)) = iEV1Type g"
  "iNTAGType (snd (raw_mode_end g)) = iNTAGType g"
  "iPWD (snd (raw_mode_end g)) = iPWD g"
  "iPACK (snd (raw_mode_end g)) = iPACK g"
  "mtDump (snd (raw_mode_end g)) = mtDump g"
  "abtHalt (snd (raw_mode_end g)) = abtHalt g"
  "abtEV1 (snd (raw_mode_end g)) = abtEV1 g"
  "wait_for_tag (snd (raw_mode_end g)) = wait_for_tag g"
  by (simp_all add: raw_mode_end_def split_beta)

lemma fgets_keeps [simp]:
  "uiBlocks (snd (fgets buffer g)) = uiBlocks g"
  "iEV1Type (snd (fgets buffer g)) = iEV1Type g"
  "iNTAGType (snd (fgets buffer g)) = iNTAGType g"
  "pnd (snd (fgets buffer g)) = pnd g"
  by (simp_all add: fgets_def split: list.splits)

lemma unlock_card_uiBlocks [simp]:
  "uiBlocks (snd (unlock_card crc g)) = uiBlocks g"
  "iEV1Type (snd (unlock_card crc g)) = iEV1Type g"
  "iNTAGType (snd (unlock_card crc g)) = iNTAGType g"
  by (simp_all add: unlock_card_def split_beta Let_def)

lemma magic_write_uiBlocks [simp]:
  "uiBlocks (snd (magic_write page b0 dw g)) = uiBlocks g
   \<and> iEV1Type (snd (magic_write page b0 dw g)) = iEV1Type g
   \<and> iNTAGType (snd (magic_write page b0 dw g)) = iNTAGType g"
proof (induction page b0 dw g rule: magic_write.induct)
  case (1 page b0 dw g)
  let ?r = "nfc_initiator_mifare_cmd MC_WRITE page
      (g\<lparr>mp := memcpy_at (mp g) 0 (drop (page * 4) b0) 4\<rparr>)"
  show ?case
  proof (cases "page \<le> 2 \<and> fst ?r")
    case True
    then have "magic_write page b0 dw g = magic_write (page + 1) b0 dw (snd ?r)"
      by (subst magic_write.simps) (simp add: split_beta)
    moreover have "uiBlocks (snd (magic_write (page + 1) b0 dw (snd ?r))) = uiBlocks (snd ?r)
      \<and> iEV1Type (snd (magic_write (page + 1) b0 dw (snd ?r))) = iEV1Type (snd ?r)
      \<and> iNTAGType (snd (magic_write (page + 1) b0 dw (snd ?r))) = iNTAGType (snd ?r)"
      using "1.IH"[OF _ refl refl] True by (metis prod.collapse)
    ultimately show ?thesis by simp
  next
    case False
    then show ?thesis by (subst (1 2 3) magic_write.simps) (auto simp: split_beta)
  qed
qed

lemma check_magic_uiBlocks [simp]:
  "uiBlocks (snd (check_magic stack crc g)) = uiBlocks g"
  "iEV1Type (snd (check_magic stack crc g)) = iEV1Type g"
  "iNTAGType (snd (check_magic stack crc g)) = iNTAGType g"
  by (simp_all add: check_magic_def split_beta Let_def magic_write_uiBlocks)

text \<open>
  C10 (page accounting). Whenever \<^verbatim>\<open>write_card\<close> returns true on a tag of at least two
  pages, as every variant has, the written, skipped and failed counters sum to the page
  count.
\<close>

theorem write_card_accounts_for_every_page:
  assumes "fst (write_card buffer0 stack crc write_otp write_lock write_dyn_lock write_uid g)"
    and "2 \<le> uiBlocks g"
  shows "pages_accounted
      (fst (snd (write_card buffer0 stack crc write_otp write_lock write_dyn_lock write_uid g))) =
    uiBlocks g"
proof -
  have flags: "pages_accounted (fst (snd (write_card_flags stack crc otp lock dyn uid g'))) =
      uiBlocks g'"
    if "fst (write_card_flags stack crc otp lock dyn uid g')" and "2 \<le> uiBlocks g'"
    for otp lock dyn uid g'
  proof (cases uid)
    case False
    then show ?thesis
      using that write_pages_accounted [of otp lock dyn 2 "write_locals0\<lparr>uiSkippedPages := 2\<rparr>" g']
      by (simp add: write_card_flags_def pages_accounted_def write_locals0_def)
  next
    case True
    let ?c = "check_magic stack crc g'"
    have ok: "fst ?c" using that(1) True
      by (simp add: write_card_flags_def split_beta split: if_splits)
    then show ?thesis
      using that True write_pages_accounted [of otp lock dyn 0 write_locals0 "snd ?c"]
      by (simp add: write_card_flags_def split_beta pages_accounted_def write_locals0_def)
  qed
  show ?thesis
    using assms
    by (simp add: write_card_def Let_def split_beta flags)
qed

lemma loop_call_protects:
  assumes "loop_call otp lock dyn ev1 ntag page e"
  shows "(\<not> lock \<longrightarrow> \<not> page_write_of 2 e) \<and> (\<not> otp \<longrightarrow> \<not> page_write_of 3 e)
     \<and> (\<not> dyn \<longrightarrow>
          (ev1 = EV1_UL21 \<longrightarrow> \<not> page_write_of 0x24 e) \<and>
          (ntag = NTAG_213 \<longrightarrow> \<not> page_write_of 0x28 e) \<and>
          (ntag = NTAG_215 \<longrightarrow> \<not> page_write_of 0x82 e) \<and>
          (ntag = NTAG_216 \<longrightarrow> \<not> page_write_of 0xe2 e))
     \<and> (\<forall>p < page. \<not> page_write_of p e)
     \<and> (fst e = SelectPassive \<or> (\<exists>p d. fst e = MifareCmd MC_WRITE p d))"
  using assms
  by (auto simp: loop_call_def page_write_of_def split: call.splits mifare_cmd.splits)

text \<open>
  C2 (write skip policy). Wherever the write loop of \<^verbatim>\<open>write_card\<close> is started, it sends
  no write of page 2 unless write-lock is set, none of page 3 unless write-OTP is set,
  and none of the dynamic-lock page of the tag type (0x24 for UL21, 0x28 for NTAG213, 0x82
  for NTAG215, 0xe2 for NTAG216) unless write-dynamic-lock is set, whatever the other
  flags are. With write-UID unset the write session is that loop started at page 2 with
  two pages counted as skipped: it sends no write of page 0 or 1, and its only calls are
  page writes and selections of the tag, so the magic-tag check, which begins with a
  block read, is not run.
\<close>

theorem write_skip_policy:
  "(\<forall>e \<in> set (issued (pnd g)
        (pnd (snd (snd (write_pages write_otp write_lock write_dyn_lock page l g))))).
      (\<not> write_lock \<longrightarrow> \<not> page_write_of 2 e) \<and>
      (\<not> write_otp \<longrightarrow> \<not> page_write_of 3 e) \<and>
      (\<not> write_dyn_lock \<longrightarrow>
         (iEV1Type g = EV1_UL21 \<longrightarrow> \<not> page_write_of 0x24 e) \<and>
         (iNTAGType g = NTAG_213 \<longrightarrow> \<not> page_write_of 0x28 e) \<and>
         (iNTAGType g = NTAG_215 \<longrightarrow> \<not> page_write_of 0x82 e) \<and>
         (iNTAGType g = NTAG_216 \<longrightarrow> \<not> page_write_of 0xe2 e)))
   \<and> (\<not> write_uid \<longrightarrow>
        write_card_flags stack crc write_otp write_lock write_dyn_lock write_uid g =
          write_pages write_otp write_lock write_dyn_lock 2
            (write_locals0\<lparr>uiSkippedPages := 2\<rparr>) g
        \<and> (\<forall>e \<in> set (issued (pnd g)
              (pnd (snd (snd (write_card_flags stack crc write_otp write_lock write_dyn_lock
                write_uid g))))).
             \<not> page_write_of 0 e \<and> \<not> page_write_of 1 e \<and>
             (fst e = SelectPassive \<or> (\<exists>p d. fst e = MifareCmd MC_WRITE p d))))"
proof -
  have loop: "\<forall>e \<in> set (issued (pnd g') (pnd (snd (snd (write_pages write_otp write_lock
        write_dyn_lock pg l' g'))))).
      loop_call write_otp write_lock write_dyn_lock (iEV1Type g') (iNTAGType g') pg e"
    for pg l' g'
    using write_pages_calls [of write_otp write_lock write_dyn_lock pg l' g']
    by (auto simp: issued_def list_all_iff)
  have a: "\<forall>e \<in> set (issued (pnd g)
        (pnd (snd (snd (write_pages write_otp write_lock write_dyn_lock page l g))))).
      (\<not> write_lock \<longrightarrow> \<not> page_write_of 2 e) \<and>
      (\<not> write_otp \<longrightarrow> \<not> page_write_of 3 e) \<and>
      (\<not> write_dyn_lock \<longrightarrow>
         (iEV1Type g = EV1_UL21 \<longrightarrow> \<not> page_write_of 0x24 e) \<and>
         (iNTAGType g = NTAG_213 \<longrightarrow> \<not> page_write_of 0x28 e) \<and>
         (iNTAGType g = NTAG_215 \<longrightarrow> \<not> page_write_of 0x82 e) \<and>
         (iNTAGType g = NTAG_216 \<longrightarrow> \<not> page_write_of 0xe2 e))"
    using loop [of g page l] loop_call_protects by blast
  have b: "\<forall>e \<in> set (issued (pnd g)
        (pnd (snd (snd (write_pages write_otp write_lock write_dyn_lock 2
            (write_locals0\<lparr>uiSkippedPages := 2\<rparr>) g))))).
      \<not> page_write_of 0 e \<and> \<not> page_write_of 1 e \<and>
      (fst e = SelectPassive \<or> (\<exists>p d. fst e = MifareCmd MC_WRITE p d))"
  proof
    fix e
    assume "e \<in> set (issued (pnd g)
        (pnd (snd (snd (write_pages write_otp write_lock write_dyn_lock 2
            (write_locals0\<lparr>uiSkippedPages := 2\<rparr>) g)))))"
    then have "loop_call write_otp write_lock write_dyn_lock (iEV1Type g) (iNTAGType g) 2 e"
      using loop by blast
    from loop_call_protects [OF this]
    have "\<forall>p < 2. \<not> page_write_of p e"
      and "fst e = SelectPassive \<or> (\<exists>p d. fst e = MifareCmd MC_WRITE p d)"
      by blast+
    then show "\<not> page_write_of 0 e \<and> \<not> page_write_of 1 e \<and>
      (fst e = SelectPassive \<or> (\<exists>p d. fst e = MifareCmd MC_WRITE p d))"
      by simp
  qed
  show ?thesis using a b by (simp add: write_card_flags_def)
qed

theorem write_card_accounts_for_every_page_witness:
  "fst (write_card ''?'' stale_stack (\<lambda>_. (0, 0)) False False False False one_failed_write)
   \<and> fst (snd (write_card ''?'' stale_stack (\<lambda>_. (0, 0)) False False False False
        one_failed_write)) =
       \<lparr>bFailure = False, uiWrittenPages = 12, uiSkippedPages = 3, uiFailedPages = 1\<rparr>
   \<and> pages_accounted (fst (snd (write_card ''?'' stale_stack (\<lambda>_. (0, 0)) False False False
        False one_failed_write))) = 16"
proof -
  have a: "fst (write_card ''?'' stale_stack (\<lambda>_. (0, 0)) False False False False
      one_failed_write)"
    by code_simp
  have b: "fst (snd (write_card ''?'' stale_stack (\<lambda>_. (0, 0)) False False False False
        one_failed_write)) =
       \<lparr>bFailure = False, uiWrittenPages = 12, uiSkippedPages = 3, uiFailedPages = 1\<rparr>"
    by code_simp
  have c: "2 \<le> uiBlocks one_failed_write"
    by (simp add: one_failed_write_def initial_globals_def)
  show ?thesis
    using write_card_accounts_for_every_page [OF a c] a b
    by (simp add: one_failed_write_def initial_globals_def)
qed

text \<open>
  On a plain tag with no flag set the session writes pages 4 to 15 and nothing else; on
  a tag of each type with dynamic lock bytes, the loop started one page before the
  dynamic-lock page passes over it and writes the pages after it.
\<close>

theorem write_skip_policy_witness:
  "map fst (issued (pnd plain_tag)
      (pnd (snd (snd (write_card_flags stale_stack (\<lambda>_. (0, 0)) False False False False
        plain_tag))))) =
     map (\<lambda>p. MifareCmd MC_WRITE p [0, 0, 0, 0, 0, 0, 0, 0, 0, 0, 0, 0, 0, 0, 0, 0])
       [4, 5, 6, 7, 8, 9, 10, 11, 12, 13, 14, 15]
   \<and> list_all (\<lambda>e. \<not> page_write_of 0 e \<and> \<not> page_write_of 1 e \<and> \<not> page_write_of 2 e
        \<and> \<not> page_write_of 3 e)
       (issued (pnd plain_tag)
         (pnd (snd (snd (write_card_flags stale_stack (\<lambda>_. (0, 0)) False False False False
           plain_tag)))))
   \<and> list_all (\<lambda>e. \<not> page_write_of 0x24 e)
       (issued (pnd (tag_of_type EV1_UL21 NTAG_NONE 41))
         (pnd (snd (snd (write_pages False False False 0x23 write_locals0
           (tag_of_type EV1_UL21 NTAG_NONE 41))))))
   \<and> list_all (\<lambda>e. \<not> page_write_of 0x28 e)
       (issued (pnd (tag_of_type EV1_NONE NTAG_213 45))
         (pnd (snd (snd (write_pages False False False 0x27 write_locals0
           (tag_of_type EV1_NONE NTAG_213 45))))))
   \<and> list_all (\<lambda>e. \<not> page_write_of 0x82 e)
       (issued (pnd (tag_of_type EV1_NONE NTAG_215 135))
         (pnd (snd (snd (write_pages False False False 0x81 write_locals0
           (tag_of_type EV1_NONE NTAG_215 135))))))
   \<and> list_all (\<lambda>e. \<not> page_write_of 0xe2 e)
       (issued (pnd (tag_of_type EV1_NONE NTAG_216 231))
         (pnd (snd (snd (write_pages False False False 0xe1 write_locals0
           (tag_of_type EV1_NONE NTAG_216 231))))))
   \<and> map fst (issued (pnd (tag_of_type EV1_NONE NTAG_216 231))
         (pnd (snd (snd (write_pages False False False 0xe1 write_locals0
           (tag_of_type EV1_NONE NTAG_216 231)))))) =
       map (\<lambda>p. MifareCmd MC_WRITE p [0, 0, 0, 0, 0, 0, 0, 0, 0, 0, 0, 0, 0, 0, 0, 0])
         [0xe1, 0xe3, 0xe4, 0xe5, 0xe6]"
proof -
  have a: "map fst (issued (pnd plain_tag)
      (pnd (snd (snd (write_card_flags stale_stack (\<lambda>_. (0, 0)) False False False False
        plain_tag))))) =
     map (\<lambda>p. MifareCmd MC_WRITE p [0, 0, 0, 0, 0, 0, 0, 0, 0, 0, 0, 0, 0, 0, 0, 0])
       [4, 5, 6, 7, 8, 9, 10, 11, 12, 13, 14, 15]"
    by code_simp
  have b: "map fst (issued (pnd (tag_of_type EV1_NONE NTAG_216 231))
         (pnd (snd (snd (write_pages False False False 0xe1 write_locals0
           (tag_of_type EV1_NONE NTAG_216 231)))))) =
       map (\<lambda>p. MifareCmd MC_WRITE p [0, 0, 0, 0, 0, 0, 0, 0, 0, 0, 0, 0, 0, 0, 0, 0])
         [0xe1, 0xe3, 0xe4, 0xe5, 0xe6]"
    by code_simp
  have t: "iEV1Type (tag_of_type ev1 ntag n) = ev1" "iNTAGType (tag_of_type ev1 ntag n) = ntag"
    for ev1 ntag n
    by (simp_all add: tag_of_type_def)
  show ?thesis
    using
      write_skip_policy [where g = plain_tag and write_otp = False and write_lock = False
        and write_dyn_lock = False and page = "2" and l = "write_locals0\<lparr>uiSkippedPages := 2\<rparr>"
        and write_uid = False and stack = stale_stack and crc = "\<lambda>_. (0, 0)"]
      write_skip_policy [where g = "tag_of_type EV1_UL21 NTAG_NONE 41" and write_otp = False and write_lock = False
        and write_dyn_lock = False and page = "0x23" and l = write_locals0
        and write_uid = False and stack = stale_stack and crc = "\<lambda>_. (0, 0)"]
      write_skip_policy [where g = "tag_of_type EV1_NONE NTAG_213 45" and write_otp = False and write_lock = False
        and write_dyn_lock = False and page = "0x27" and l = write_locals0
        and write_uid = False and stack = stale_stack and crc = "\<lambda>_. (0, 0)"]
      write_skip_policy [where g = "tag_of_type EV1_NONE NTAG_215 135" and write_otp = False and write_lock = False
        and write_dyn_lock = False and page = "0x81" and l = write_locals0
        and write_uid = False and stack = stale_stack and crc = "\<lambda>_. (0, 0)"]
      write_skip_policy [where g = "tag_of_type EV1_NONE NTAG_216 231" and write_otp = False and write_lock = False
        and write_dyn_lock = False and page = "0xe1" and l = write_locals0
        and write_uid = False and stack = stale_stack and crc = "\<lambda>_. (0, 0)"]
    unfolding a b by (simp add: t list_all_iff)
qed

lemma hexval_chars:
  assumes "hexval c = Some v"
  shows "\<not> isspace c" and "c \<noteq> CHR ''-''" and "c \<noteq> CHR ''+''" and "c \<noteq> CHR ''x''"
    and "c \<noteq> CHR ''X''" and "v < 16"
  using assms
  by (auto simp: hexval_def isspace_def Let_def split: if_splits)

lemma scan_2x_two_digits:
  assumes "hexval c = Some v" and "hexval d = Some w"
  shows "scan_2x prefixed (c # d # rest) = Some (of_nat (16 * v + w), rest)"
  using assms hexval_chars [OF assms(1)] hexval_chars [OF assms(2)]
  by (simp add: scan_2x_def)

lemma scan_2x_one_digit:
  assumes "hexval c = Some v"
  shows "scan_2x prefixed [c] = Some (of_nat v, [])"
  using assms hexval_chars [OF assms(1)]
  by (simp add: scan_2x_def)

lemma scan_2x_empty: "scan_2x prefixed [] = None"
  by (simp add: scan_2x_def)

lemma byte_of_nat:
  "n < 256 \<Longrightarrow> (ucast (of_nat n :: 32 word) :: byte) = of_nat n"
  by (simp add: unsigned_of_nat take_bit_nat_eq_self)

lemma byte_of_pair:
  "v < 16 \<Longrightarrow> w < 16 \<Longrightarrow>
   (ucast (of_nat (16 * v + w) :: 32 word) :: byte) = of_nat (16 * v + w)"
  by (rule byte_of_nat) simp

lemma short_list:
  assumes "length (s :: 'a list) < 7"
  obtains "s = []" | a where "s = [a]" | a b where "s = [a, b]" | a b c where "s = [a, b, c]"
    | a b c d where "s = [a, b, c, d]" | a b c d e where "s = [a, b, c, d, e]"
    | a b c d e f where "s = [a, b, c, d, e, f]"
proof -
  have "length s = 0 \<or> length s = Suc 0 \<or> length s = Suc (Suc 0) \<or> length s = Suc (Suc (Suc 0))
    \<or> length s = Suc (Suc (Suc (Suc 0))) \<or> length s = Suc (Suc (Suc (Suc (Suc 0))))
    \<or> length s = Suc (Suc (Suc (Suc (Suc (Suc 0)))))"
    using assms by linarith
  then show ?thesis using that by (auto simp: length_Suc_conv)
qed

lemma hexval_0: "hexval (CHR ''0'') = Some 0"
  by (simp add: hexval_def)

lemma hexval_no_sign [simp]: "hexval (CHR ''-'') = None" "hexval (CHR ''+'') = None"
  "hexval (CHR ''x'') = None" "hexval (CHR ''X'') = None"
  by (simp_all add: hexval_def)

lemma dropWhile_group:
  assumes "dropWhile isspace g = b" and "b \<noteq> []"
  shows "dropWhile isspace (g @ t) = b @ t"
proof -
  have "\<not> (\<forall>x \<in> set g. isspace x)"
    using assms by (metis dropWhile_eq_Nil_conv)
  then show ?thesis using assms(1) by (auto simp: dropWhile_append)
qed

lemma scan_2x_group:
  assumes "group_of g t"
  shows "scan_2x prefixed (g @ t) = Some (group_val g, t)"
proof -
  consider c where "dropWhile isspace g = [c]" "hexval c \<noteq> None" "ends_group c t"
    | c d where "dropWhile isspace g = [c, d]" "c = CHR ''-'' \<or> c = CHR ''+'' \<or> hexval c \<noteq> None"
        "hexval d \<noteq> None"
    using assms by (auto simp: group_of_def split: list.splits)
  then show ?thesis
  proof cases
    case 1
    then obtain v where v: "hexval c = Some v" by auto
    have d: "dropWhile isspace (g @ t) = c # t"
      using dropWhile_group [OF 1(1)] by simp
    show ?thesis using 1 v hexval_chars [OF v]
      unfolding scan_2x_def d group_val_def
      by (cases t) (auto simp: ends_group_def)
  next
    case 2
    then obtain w where w: "hexval d = Some w" by auto
    have d: "dropWhile isspace (g @ t) = c # d # t"
      using dropWhile_group [OF 2(1)] by simp
    show ?thesis
    proof (cases "c = CHR ''-'' \<or> c = CHR ''+''")
      case True
      then show ?thesis using 2 w unfolding scan_2x_def d group_val_def by auto
    next
      case False
      then obtain v where v: "hexval c = Some v" using 2 by auto
      show ?thesis using 2 w v False hexval_chars [OF w]
        unfolding scan_2x_def d group_val_def by auto
    qed
  qed
qed

lemma scan_2x_no_group:
  assumes "no_group t"
  shows "scan_2x prefixed t = None"
proof (cases "dropWhile isspace t")
  case Nil
  then show ?thesis by (simp only: scan_2x_def list.case)
next
  case (Cons c cs)
  then show ?thesis using assms hexval_0
    by (auto simp: scan_2x_def no_group_def split: list.splits if_splits)
qed

lemma group_of_digits:
  assumes "hexval c = Some v" and "hexval d = Some w"
  shows "group_of [c, d] t" and "group_val [c, d] = of_nat (16 * v + w)"
  using assms hexval_chars [OF assms(1)] by (auto simp: group_of_def group_val_def)

lemma text_cases:
  "no_group s \<or> begins_0x s \<or> (\<exists>g t. s = g @ t \<and> group_of g t)"
proof (cases "dropWhile isspace s")
  case Nil
  then have "no_group s" by (simp only: no_group_def list.case)
  then show ?thesis by blast
next
  case (Cons c cs)
  have s: "s = takeWhile isspace s @ c # cs"
    using Cons by (metis takeWhile_dropWhile_id)
  have nsp: "\<not> isspace c"
    using Cons by (metis hd_dropWhile list.sel(1) list.distinct(1))
  have ws: "\<forall>x \<in> set (takeWhile isspace s). isspace x"
    by (auto dest: set_takeWhileD)
  have one: "dropWhile isspace (takeWhile isspace s @ [c]) = [c]"
    using nsp ws by (simp add: dropWhile_append)
  have two: "dropWhile isspace (takeWhile isspace s @ [c, d]) = [c, d]" for d
    using nsp ws by (simp add: dropWhile_append)
  show ?thesis
  proof (cases "no_group s \<or> begins_0x s")
    case True
    then show ?thesis by blast
  next
    case False
    show ?thesis
    proof (cases "c = CHR ''-'' \<or> c = CHR ''+''")
      case True
      then obtain d ds where cs: "cs = d # ds" and d: "hexval d \<noteq> None"
        using False Cons by (auto simp: no_group_def split: list.splits)
      have "s = (takeWhile isspace s @ [c, d]) @ ds" using s cs by simp
      moreover have "group_of (takeWhile isspace s @ [c, d]) ds"
        using True d unfolding group_of_def two by auto
      ultimately show ?thesis by blast
    next
      case sg: False
      then have c: "hexval c \<noteq> None"
        using False Cons by (auto simp: no_group_def)
      show ?thesis
      proof (cases "cs = [] \<or> hexval (hd cs) = None")
        case True
        have "ends_group c cs"
          using True False Cons by (cases cs) (auto simp: ends_group_def begins_0x_def)
        then have "group_of (takeWhile isspace s @ [c]) cs"
          using c unfolding group_of_def one by simp
        moreover have "s = (takeWhile isspace s @ [c]) @ cs" using s by simp
        ultimately show ?thesis by blast
      next
        case False
        then obtain d ds where cs: "cs = d # ds" and d: "hexval d \<noteq> None"
          by (cases cs) auto
        have "s = (takeWhile isspace s @ [c, d]) @ ds" using s cs by simp
        moreover have "group_of (takeWhile isspace s @ [c, d]) ds"
          using c d unfolding group_of_def two by auto
        ultimately show ?thesis by blast
      qed
    qed
  qed
qed

lemma text_groups:
  "\<exists>gs u. s = concat gs @ u \<and> groups gs u \<and>
     (length gs = n \<or> length gs < n \<and> (no_group u \<or> begins_0x u))"
proof (induction n arbitrary: s)
  case 0
  have "s = concat [] @ s \<and> groups [] s \<and> length ([] :: string list) = 0" by simp
  then show ?case by blast
next
  case (Suc n)
  consider "no_group s \<or> begins_0x s" | g t where "s = g @ t" "group_of g t"
    using text_cases [of s] by blast
  then show ?case
  proof cases
    case 1
    then have "s = concat [] @ s \<and> groups [] s \<and>
      length ([] :: string list) < Suc n \<and> (no_group s \<or> begins_0x s)" by simp
    then show ?thesis by blast
  next
    case 2
    obtain gs u where gs: "t = concat gs @ u" "groups gs u"
      "length gs = n \<or> length gs < n \<and> (no_group u \<or> begins_0x u)"
      using Suc.IH [of t] by blast
    have "s = concat (g # gs) @ u \<and> groups (g # gs) u \<and>
      (length (g # gs) = Suc n \<or> length (g # gs) < Suc n \<and> (no_group u \<or> begins_0x u))"
      using 2 gs by auto
    then show ?thesis by blast
  qed
qed

lemma four_groups:
  assumes "length gs = 4"
  obtains g1 g2 g3 g4 where "gs = [g1, g2, g3, g4]"
  using assms by (auto simp: numeral_eq_Suc length_Suc_conv)

lemma few_groups:
  assumes "length gs < 4"
  obtains "gs = []" | g1 where "gs = [g1]" | g1 g2 where "gs = [g1, g2]"
    | g1 g2 g3 where "gs = [g1, g2, g3]"
proof -
  have "length gs = 0 \<or> length gs = Suc 0 \<or> length gs = Suc (Suc 0)
    \<or> length gs = Suc (Suc (Suc 0))"
    using assms by linarith
  then show ?thesis using that by (auto simp: length_Suc_conv)
qed

text \<open>
  C7 (password parsing), as the code has it. Text that begins with eight hexadecimal
  digits is accepted and yields the four bytes of its four digit pairs, whatever
  follows; text made of fewer than seven hexadecimal digits is rejected and leaves the
  target as it was. In general the text is accepted exactly when four groups can be read
  from it one after the other, whatever follows them, and then yields their four values;
  it is rejected, the target left as it was, when fewer than four groups are followed by
  text that begins no group. Every text is of one of these two kinds, or has fewer than
  four groups followed by the prefix \<^verbatim>\<open>0x\<close>, where the C library decides.
\<close>

theorem password_text:
  "(hexval c1 = Some v1 \<and> hexval c2 = Some v2 \<and> hexval c3 = Some v3 \<and> hexval c4 = Some v4 \<and>
    hexval c5 = Some v5 \<and> hexval c6 = Some v6 \<and> hexval c7 = Some v7 \<and> hexval c8 = Some v8 \<longrightarrow>
      ev1_load_pwd prefixed target (c1 # c2 # c3 # c4 # c5 # c6 # c7 # c8 # rest) =
        (True, [of_nat (16 * v1 + v2), of_nat (16 * v3 + v4), of_nat (16 * v5 + v6),
                of_nat (16 * v7 + v8)]))
   \<and> ((\<forall>c \<in> set s. hexval c \<noteq> None) \<and> length s < 7 \<longrightarrow>
        ev1_load_pwd prefixed target s = (False, target))
   \<and> (groups gs t \<and> length gs = 4 \<longrightarrow>
        ev1_load_pwd prefixed target (concat gs @ t) = (True, map (\<lambda>g. ucast (group_val g)) gs))
   \<and> (groups hs u \<and> length hs < 4 \<and> no_group u \<longrightarrow>
        ev1_load_pwd prefixed target (concat hs @ u) = (False, target))
   \<and> (\<exists>ks w. pwd = concat ks @ w \<and> groups ks w \<and>
        (length ks = 4 \<or> length ks < 4 \<and> (no_group w \<or> begins_0x w)))"
proof (intro conjI impI)
  assume h: "hexval c1 = Some v1 \<and> hexval c2 = Some v2 \<and> hexval c3 = Some v3 \<and>
    hexval c4 = Some v4 \<and> hexval c5 = Some v5 \<and> hexval c6 = Some v6 \<and> hexval c7 = Some v7 \<and>
    hexval c8 = Some v8"
  then have lt: "v1 < 16" "v2 < 16" "v3 < 16" "v4 < 16" "v5 < 16" "v6 < 16" "v7 < 16" "v8 < 16"
    using hexval_chars(6) by blast+
  show "ev1_load_pwd prefixed target (c1 # c2 # c3 # c4 # c5 # c6 # c7 # c8 # rest) =
        (True, [of_nat (16 * v1 + v2), of_nat (16 * v3 + v4), of_nat (16 * v5 + v6),
                of_nat (16 * v7 + v8)])"
    using h lt
    by (simp add: ev1_load_pwd_def scan_2x_two_digits byte_of_pair
        del: of_nat_add of_nat_mult)
next
  assume a: "(\<forall>c \<in> set s. hexval c \<noteq> None) \<and> length s < 7"
  then have "length s < 7" by simp
  then show "ev1_load_pwd prefixed target s = (False, target)"
  proof (cases s rule: short_list)
    case 1
    then show ?thesis by (simp add: ev1_load_pwd_def scan_2x_empty)
  next
    case (2 a)
    then show ?thesis using a
      by (auto simp: ev1_load_pwd_def scan_2x_one_digit scan_2x_empty)
  next
    case (3 a b)
    then show ?thesis using a
      by (auto simp: ev1_load_pwd_def scan_2x_two_digits scan_2x_empty)
  next
    case (4 a b c)
    then show ?thesis using a
      by (auto simp: ev1_load_pwd_def scan_2x_two_digits scan_2x_one_digit scan_2x_empty)
  next
    case (5 a b c d)
    then show ?thesis using a
      by (auto simp: ev1_load_pwd_def scan_2x_two_digits scan_2x_empty)
  next
    case (6 a b c d e)
    then show ?thesis using a
      by (auto simp: ev1_load_pwd_def scan_2x_two_digits scan_2x_one_digit scan_2x_empty)
  next
    case (7 a b c d e f)
    then show ?thesis using a
      by (auto simp: ev1_load_pwd_def scan_2x_two_digits scan_2x_empty)
  qed
next
  assume a: "groups gs t \<and> length gs = 4"
  then obtain g1 g2 g3 g4 where gs: "gs = [g1, g2, g3, g4]"
    by (auto elim: four_groups)
  have g: "group_of g1 (g2 @ g3 @ g4 @ t)" "group_of g2 (g3 @ g4 @ t)" "group_of g3 (g4 @ t)"
    "group_of g4 t"
    using a unfolding gs by simp_all
  show "ev1_load_pwd prefixed target (concat gs @ t) = (True, map (\<lambda>g. ucast (group_val g)) gs)"
    unfolding gs using g by (simp add: ev1_load_pwd_def scan_2x_group)
next
  assume a: "groups hs u \<and> length hs < 4 \<and> no_group u"
  then have n: "scan_2x prefixed u = None"
    by (simp add: scan_2x_no_group)
  from a have "length hs < 4" by simp
  then show "ev1_load_pwd prefixed target (concat hs @ u) = (False, target)"
  proof (cases hs rule: few_groups)
    case 1
    then show ?thesis using n by (simp add: ev1_load_pwd_def)
  next
    case (2 g1)
    then show ?thesis using a n by (simp add: ev1_load_pwd_def scan_2x_group)
  next
    case (3 g1 g2)
    then show ?thesis using a n by (simp add: ev1_load_pwd_def scan_2x_group)
  next
    case (4 g1 g2 g3)
    then show ?thesis using a n by (simp add: ev1_load_pwd_def scan_2x_group)
  qed
next
  show "\<exists>ks w. pwd = concat ks @ w \<and> groups ks w \<and>
        (length ks = 4 \<or> length ks < 4 \<and> (no_group w \<or> begins_0x w))"
    by (rule text_groups)
qed

theorem password_text_witness:
  "ev1_load_pwd (\<lambda>_. None) [0, 0, 0, 0] ''1a2B3c4D'' = (True, [0x1a, 0x2b, 0x3c, 0x4d])
   \<and> ev1_load_pwd (\<lambda>_. None) [0, 0, 0, 0] ''1a2b3c'' = (False, [0, 0, 0, 0])
   \<and> ev1_load_pwd (\<lambda>_. None) [0, 0, 0, 0] ''1a2b3c4Z'' = (True, [0x1a, 0x2b, 0x3c, 0x04])
   \<and> ev1_load_pwd (\<lambda>_. None) [0, 0, 0, 0] '' 1+2-3 4'' = (True, [0x01, 0x02, 0xFD, 0x04])
   \<and> ev1_load_pwd (\<lambda>_. None) [0, 0, 0, 0] ''zzzzzzzz'' = (False, [0, 0, 0, 0])
   \<and> ev1_load_pwd (\<lambda>_. None) [0, 0, 0, 0] ''1a2b3cZZ'' = (False, [0, 0, 0, 0])
   \<and> ev1_load_pwd (\<lambda>_. None) [0, 0, 0, 0] ''password'' = (False, [0, 0, 0, 0])
   \<and> ev1_load_pwd (\<lambda>_. None) [0, 0, 0, 0] ''1a 2b 3c zz'' = (False, [0, 0, 0, 0])"
  using password_text [where ?c1.0 = "CHR ''1''" and ?v1.0 = 1 and ?c2.0 = "CHR ''a''" and ?v2.0 = 10
      and ?c3.0 = "CHR ''2''" and ?v3.0 = 2 and ?c4.0 = "CHR ''B''" and ?v4.0 = 11
      and ?c5.0 = "CHR ''3''" and ?v5.0 = 3 and ?c6.0 = "CHR ''c''" and ?v6.0 = 12
      and ?c7.0 = "CHR ''4''" and ?v7.0 = 4 and ?c8.0 = "CHR ''D''" and ?v8.0 = 13
      and rest = "[]" and s = "''1a2b3c''"
      and gs = "[''1a'', ''2b'', ''3c'', ''4'']" and t = "''Z''"
      and hs = "[]" and u = "''zzzzzzzz''" and pwd = "[]"
      and prefixed = "\<lambda>_. None" and target = "[0, 0, 0, 0]"]
    password_text [where gs = "['' 1'', ''+2'', ''-3'', '' 4'']" and t = "[]"
      and hs = "[''1a'', ''2b'', ''3c'']" and u = "''ZZ''"
      and prefixed = "\<lambda>_. None" and target = "[0, 0, 0, 0]"]
    password_text [where hs = "[]" and u = "''password''"
      and prefixed = "\<lambda>_. None" and target = "[0, 0, 0, 0]"]
    password_text [where hs = "[''1a'', '' 2b'', '' 3c'']" and u = "'' zz''"
      and prefixed = "\<lambda>_. None" and target = "[0, 0, 0, 0]"]
  by (simp add: hexval_def group_of_def group_val_def ends_group_def no_group_def isspace_def)

text \<open>
  C7 as the specification states it fails on the seven digits \<^verbatim>\<open>1a2b3c4\<close>, which are not four
  groups of two digits and are accepted all the same, the last group being one digit
  long.
\<close>

theorem password_text_counterexample:
  "ev1_load_pwd (\<lambda>_. None) [0, 0, 0, 0] ''1a2b3c4'' = (True, [0x1a, 0x2b, 0x3c, 0x04])"
  by code_simp

lemma get_ev1_version_keeps [simp]:
  "uiBlocks (snd (get_ev1_version crc g)) = uiBlocks g"
  "iEV1Type (snd (get_ev1_version crc g)) = iEV1Type g"
  "iNTAGType (snd (get_ev1_version crc g)) = iNTAGType g"
  "iPWD (snd (get_ev1_version crc g)) = iPWD g"
  "iPACK (snd (get_ev1_version crc g)) = iPACK g"
  "mtDump (snd (get_ev1_version crc g)) = mtDump g"
  by (simp_all add: get_ev1_version_def split_beta Let_def)

lemma close_exit_keeps [simp]:
  "uiBlocks (close_exit g) = uiBlocks g"
  "iEV1Type (close_exit g) = iEV1Type g"
  "iNTAGType (close_exit g) = iNTAGType g"
  "iPWD (close_exit g) = iPWD g"
  "iPACK (close_exit g) = iPACK g"
  "mtDump (close_exit g) = mtDump g"
  by (simp_all add: close_exit_def)

text \<open>
  C1 (variant classification). At the test "if tag is EV1 or NTAG" of \<^verbatim>\<open>main\<close>, reached
  with the type variables and the page count as they are at program start: when the
  version probe succeeds, byte 6 of the answer decides. 0x0b and 0x00 give UL11 with 20
  pages, 0x0e UL21 with 41, 0x0f NTAG213 with 45, 0x11 NTAG215 with 135, 0x13 NTAG216 with
  231, and the program goes on; any other byte ends it for an unknown variant, in the
  state the probe left, so without any further call. When the probe gives no answer
  the tag stays classified as none with 16 pages, and the program does not end for an
  unknown variant.
\<close>

theorem classify_version_response:
  assumes "iEV1Type g = EV1_NONE" and "iNTAGType g = NTAG_NONE" and "uiBlocks g = 16"
  shows
    "(fst (get_ev1_version crc g) \<longrightarrow>
        (abtRx (snd (get_ev1_version crc g)) ! 6 = 0x0b \<or> abtRx (snd (get_ev1_version crc g)) ! 6 = 0x00 \<longrightarrow>
           goes_on (main_probe crc g) \<and>
           variant_of (step_state (main_probe crc g)) = (EV1_UL11, NTAG_NONE, 20)) \<and>
        (abtRx (snd (get_ev1_version crc g)) ! 6 = 0x0e \<longrightarrow>
           goes_on (main_probe crc g) \<and>
           variant_of (step_state (main_probe crc g)) = (EV1_UL21, NTAG_NONE, 41)) \<and>
        (abtRx (snd (get_ev1_version crc g)) ! 6 = 0x0f \<longrightarrow>
           goes_on (main_probe crc g) \<and>
           variant_of (step_state (main_probe crc g)) = (EV1_NONE, NTAG_213, 45)) \<and>
        (abtRx (snd (get_ev1_version crc g)) ! 6 = 0x11 \<longrightarrow>
           goes_on (main_probe crc g) \<and>
           variant_of (step_state (main_probe crc g)) = (EV1_NONE, NTAG_215, 135)) \<and>
        (abtRx (snd (get_ev1_version crc g)) ! 6 = 0x13 \<longrightarrow>
           goes_on (main_probe crc g) \<and>
           variant_of (step_state (main_probe crc g)) = (EV1_NONE, NTAG_216, 231)) \<and>
        (abtRx (snd (get_ev1_version crc g)) ! 6 \<notin> {0x0b, 0x00, 0x0e, 0x0f, 0x11, 0x13} \<longrightarrow>
           main_probe crc g = Inl (Exit UnknownVariant (snd (get_ev1_version crc g)))))
     \<and> (\<not> fst (get_ev1_version crc g) \<longrightarrow>
          variant_of (step_state (main_probe crc g)) = (EV1_NONE, NTAG_NONE, 16) \<and>
          (\<forall>g'. main_probe crc g \<noteq> Inl (Exit UnknownVariant g')))"
  using assms
  by (simp add: main_probe_def split_beta Let_def variant_of_def step_state_def goes_on_def)

theorem classify_version_response_witness:
  "variant_of (step_state (main_probe (\<lambda>_. (0, 0)) (tag_answering [0x00, 0x04, 0x03, 0x01, 0x01, 0x00, 0x0b, 0x03])))
     = (EV1_UL11, NTAG_NONE, 20)
   \<and> variant_of (step_state (main_probe (\<lambda>_. (0, 0)) (tag_answering [0x00])))
     = (EV1_UL11, NTAG_NONE, 20)
   \<and> variant_of (step_state (main_probe (\<lambda>_. (0, 0)) (tag_answering [0x00, 0x04, 0x03, 0x01, 0x01, 0x00, 0x0e, 0x03])))
     = (EV1_UL21, NTAG_NONE, 41)
   \<and> variant_of (step_state (main_probe (\<lambda>_. (0, 0)) (tag_answering [0x00, 0x04, 0x04, 0x02, 0x01, 0x00, 0x0f, 0x03])))
     = (EV1_NONE, NTAG_213, 45)
   \<and> variant_of (step_state (main_probe (\<lambda>_. (0, 0)) (tag_answering [0x00, 0x04, 0x04, 0x02, 0x01, 0x00, 0x11, 0x03])))
     = (EV1_NONE, NTAG_215, 135)
   \<and> variant_of (step_state (main_probe (\<lambda>_. (0, 0)) (tag_answering [0x00, 0x04, 0x04, 0x02, 0x01, 0x00, 0x13, 0x03])))
     = (EV1_NONE, NTAG_216, 231)
   \<and> main_probe (\<lambda>_. (0, 0)) (tag_answering [0x00, 0x04, 0x04, 0x02, 0x01, 0x00, 0x12, 0x03]) =
       Inl (Exit UnknownVariant
         (snd (get_ev1_version (\<lambda>_. (0, 0)) (tag_answering [0x00, 0x04, 0x04, 0x02, 0x01, 0x00, 0x12, 0x03]))))
   \<and> variant_of (step_state (main_probe (\<lambda>_. (0, 0)) tag_silent)) = (EV1_NONE, NTAG_NONE, 16)"
proof -
  have init: "iEV1Type (tag_answering v) = EV1_NONE" "iNTAGType (tag_answering v) = NTAG_NONE"
    "uiBlocks (tag_answering v) = 16" "iEV1Type tag_silent = EV1_NONE"
    "iNTAGType tag_silent = NTAG_NONE" "uiBlocks tag_silent = 16" for v
    by (simp_all add: tag_answering_def tag_silent_def initial_globals_def)
  have ok: "fst (get_ev1_version (\<lambda>_. (0, 0)) (tag_answering [b0, b1, b2, b3, b4, b5, b6, b7]))"
    "fst (get_ev1_version (\<lambda>_. (0, 0)) (tag_answering [b0]))"
    for b0 b1 b2 b3 b4 b5 b6 b7
    by (simp_all add: get_ev1_version_def eval_defs tag_answering_def)
  have byte: "abtRx (snd (get_ev1_version (\<lambda>_. (0, 0)) (tag_answering [b0, b1, b2, b3, b4, b5, b6, b7]))) ! 6 = b6"
    for b0 b1 b2 b3 b4 b5 b6 b7
    by (simp add: get_ev1_version_def eval_defs tag_answering_def)
  have stale: "abtRx (snd (get_ev1_version (\<lambda>_. (0, 0)) (tag_answering [0x00]))) ! 6 = 0x00"
    by (simp add: get_ev1_version_def eval_defs tag_answering_def)
  have silent: "\<not> fst (get_ev1_version (\<lambda>_. (0, 0)) tag_silent)"
    by (simp add: get_ev1_version_def eval_defs tag_silent_def)
  show ?thesis
    using
      classify_version_response [where g = "tag_answering [0x00, 0x04, 0x03, 0x01, 0x01, 0x00, 0x0b, 0x03]"
        and crc = "\<lambda>_. (0, 0)"]
      classify_version_response [where g = "tag_answering [0x00]"
        and crc = "\<lambda>_. (0, 0)"]
      classify_version_response [where g = "tag_answering [0x00, 0x04, 0x03, 0x01, 0x01, 0x00, 0x0e, 0x03]"
        and crc = "\<lambda>_. (0, 0)"]
      classify_version_response [where g = "tag_answering [0x00, 0x04, 0x04, 0x02, 0x01, 0x00, 0x0f, 0x03]"
        and crc = "\<lambda>_. (0, 0)"]
      classify_version_response [where g = "tag_answering [0x00, 0x04, 0x04, 0x02, 0x01, 0x00, 0x11, 0x03]"
        and crc = "\<lambda>_. (0, 0)"]
      classify_version_response [where g = "tag_answering [0x00, 0x04, 0x04, 0x02, 0x01, 0x00, 0x13, 0x03]"
        and crc = "\<lambda>_. (0, 0)"]
      classify_version_response [where g = "tag_answering [0x00, 0x04, 0x04, 0x02, 0x01, 0x00, 0x12, 0x03]"
        and crc = "\<lambda>_. (0, 0)"]
      classify_version_response [where g = tag_silent and crc = "\<lambda>_. (0, 0)"]
    by (simp add: init ok byte stale silent)
qed

lemma quiet_adv:
  "quiet n d \<Longrightarrow> \<not> is_auth_frame (c, reply_at (replies d) 0) \<Longrightarrow>
   c \<noteq> SetProperty NP_HANDLE_CRC False \<Longrightarrow> quiet n (adv c d)"
  by (simp add: quiet_def raw_entries_def)

lemma quiet_adv_raw:
  "quiet n d \<Longrightarrow> quiet (Suc n) (adv (SetProperty NP_HANDLE_CRC False) d)"
  by (simp add: quiet_def raw_entries_def is_auth_frame_def)

lemma quiet_notify:
  "quiet n d \<Longrightarrow> c = NfcClose \<or> c = NfcExit \<Longrightarrow> quiet n (notify c d)"
  by (auto simp: quiet_def raw_entries_def notify_def is_auth_frame_def)

lemma quiet_mono: "quiet n d \<Longrightarrow> n \<le> m \<Longrightarrow> quiet m d"
  by (simp add: quiet_def)

lemma not_auth [simp]:
  "\<not> is_auth_frame (SetProperty p v, r)" "\<not> is_auth_frame (SelectPassive, r)"
  "\<not> is_auth_frame (MifareCmd mc page d, r)" "\<not> is_auth_frame (NfcInit, r)"
  "\<not> is_auth_frame (NfcOpen, r)" "\<not> is_auth_frame (InitiatorInit, r)"
  "\<not> is_auth_frame (ListPassiveTargets, r)"
  by (simp_all add: is_auth_frame_def)

lemma lib_call_pnd: "pnd (snd (lib_call c g)) = adv c (pnd g)"
  by (simp add: lib_call_def exchange_alt adv_def split: reply.splits)

lemma select_pnd: "pnd (snd (select_passive_target g)) = adv SelectPassive (pnd g)"
  by (simp add: select_passive_target_def exchange_alt adv_def split: reply.splits)

lemma close_exit_pnd: "pnd (close_exit g) = notify NfcExit (notify NfcClose (pnd g))"
  by (simp add: close_exit_def)

lemma close_exit_more [simp]: "abtEV1 (close_exit g) = abtEV1 g"
  by (simp add: close_exit_def)

lemma no_password_close: "no_password n g \<Longrightarrow> no_password n (close_exit g)"
  by (simp add: no_password_def close_exit_pnd quiet_notify)

lemma main_args_same:
  "pnd (args_state (main_args atoi argv (a, b, g))) = pnd g
   \<and> iPWD (args_state (main_args atoi argv (a, b, g))) = iPWD g
   \<and> iPACK (args_state (main_args atoi argv (a, b, g))) = iPACK g
   \<and> abtEV1 (args_state (main_args atoi argv (a, b, g))) = abtEV1 g
   \<and> mtDump (args_state (main_args atoi argv (a, b, g))) = mtDump g"
proof (induction argv arbitrary: a b g)
  case Nil
  then show ?case by (simp add: args_state_def)
next
  case (Cons x xs)
  show ?case
  proof (cases "char_at x 0 = CHR ''-''")
    case True
    then show ?thesis
      using Cons.IH [where a = a and b = b and g = "g\<lparr>logging := 1\<rparr>"]
        Cons.IH [where a = a and b = b and g = "g\<lparr>wait_for_tag := 1\<rparr>"]
      by (simp add: args_state_def)
  next
    case False
    then show ?thesis
      using Cons.IH [where a = "atoi x" and b = b and g = g]
        Cons.IH [where a = a and b = "atoi x" and g = g] Cons.IH [where a = a and b = b and g = g]
      by (simp add: args_state_def)
  qed
qed

lemma lib_call_np:
  "no_password n g \<Longrightarrow> c \<noteq> SetProperty NP_HANDLE_CRC False \<Longrightarrow> \<not> is_auth_frame (c, reply_at (replies (pnd g)) 0) \<Longrightarrow>
   no_password n (snd (lib_call c g))"
  by (simp add: no_password_def lib_call_pnd quiet_adv)

lemma set_property_np:
  "no_password n g \<Longrightarrow> (p, v) \<noteq> (NP_HANDLE_CRC, False) \<Longrightarrow>
   no_password n (snd (set_property_bool p v g))"
  by (auto simp: no_password_def set_property_bool_snd quiet_adv)

lemma select_np:
  "no_password n g \<Longrightarrow> no_password n (snd (select_passive_target g))"
  by (simp add: no_password_def select_pnd quiet_adv)

lemma no_password_pnd_update:
  "no_password n g \<Longrightarrow> no_password n (g\<lparr>pnd := notify NfcExit (pnd g)\<rparr>)"
  by (simp add: no_password_def quiet_notify)

lemma main_open_no_password:
  assumes "no_password n g"
  shows "no_password n (step_state (main_open g))"
proof -
  let ?g1 = "snd (lib_call NfcInit g)"
  let ?g2 = "snd (lib_call NfcOpen ?g1)"
  let ?g3 = "snd (lib_call InitiatorInit ?g2)"
  let ?g4 = "snd (lib_call ListPassiveTargets ?g3)"
  let ?g5 = "snd (lib_call InitiatorInit ?g4)"
  let ?g6 = "snd (set_property_bool NP_INFINITE_SELECT False ?g5)"
  have 1: "no_password n ?g1" using assms by (simp add: lib_call_np)
  have 2: "no_password n ?g2" using 1 by (simp add: lib_call_np)
  have 3: "no_password n ?g3" using 2 by (simp add: lib_call_np)
  have 4: "no_password n ?g4" using 3 by (simp add: lib_call_np)
  have 5: "no_password n ?g5" using 4 by (simp add: lib_call_np)
  have 6: "no_password n ?g6" using 5 by (simp add: set_property_np)
  have "step_state (main_open g) \<in>
      {?g1, ?g2\<lparr>pnd := notify NfcExit (pnd ?g2)\<rparr>, close_exit ?g3, close_exit ?g5,
       close_exit ?g6, ?g6}"
    by (simp add: main_open_def split_beta Let_def step_state_def)
  then show ?thesis
    using 1 2 3 5 6 no_password_close no_password_pnd_update by auto
qed

declare main_select.simps [simp del]

lemma no_password_updates [simp]:
  "no_password n (g\<lparr>wait_for_tag := w\<rparr>) = no_password n g"
  "no_password n (g\<lparr>uiBlocks := u\<rparr>) = no_password n g"
  "no_password n (g\<lparr>iEV1Type := e\<rparr>) = no_password n g"
  "no_password n (g\<lparr>iNTAGType := t\<rparr>) = no_password n g"
  by (simp_all add: no_password_def)

lemma main_select_no_password:
  "no_password n g \<Longrightarrow> no_password n (step_state (main_select g))"
proof (induction g rule: main_select.induct)
  case (1 g)
  let ?s = "select_passive_target g"
  have s: "no_password n (snd ?s)" using "1.prems" by (rule select_np)
  show ?case
  proof (cases "\<not> fst ?s \<and> wait_for_tag (snd ?s) \<noteq> 0 \<and> replies (pnd g) \<noteq> []")
    case True
    then have "main_select g = main_select (snd ?s)"
      by (subst main_select.simps) (simp add: split_beta)
    moreover have "no_password n (step_state (main_select (snd ?s)))"
    proof -
      obtain ok g1 where eq: "select_passive_target g = (ok, g1)" by fastforce
      show ?thesis using "1.IH" [OF refl eq [symmetric]] True s by (simp add: eq)
    qed
    ultimately show ?thesis by simp
  next
    case False
    then show ?thesis using s
      by (subst main_select.simps)
         (auto simp: split_beta step_state_def no_password_close)
  qed
qed

lemma raw_mode_start_np:
  "no_password n g \<Longrightarrow> no_password (Suc n) (snd (raw_mode_start g))"
  by (auto simp: no_password_def raw_mode_start_snd quiet_adv quiet_adv_raw)

lemma raw_mode_end_np:
  "no_password n g \<Longrightarrow> no_password n (snd (raw_mode_end g))"
  by (auto simp: no_password_def raw_mode_end_def split_beta set_property_bool_snd quiet_adv)

lemma transmit_bytes_np:
  "no_password n g \<Longrightarrow> take 1 tx \<noteq> [0x1B] \<Longrightarrow> no_password n (snd (transmit_bytes tx g))"
  by (simp add: no_password_def transmit_bytes_pnd quiet_adv is_auth_frame_def)

lemma crc_append_head:
  "take 1 buf = [b] \<Longrightarrow> take 1 (iso14443a_crc_append crc buf 1) = [b]"
  "take 1 buf = [b] \<Longrightarrow> take 1 (take 3 (iso14443a_crc_append crc buf 1)) = [b]"
  by (cases buf; simp add: iso14443a_crc_append_def memcpy_at_def split_beta)+

lemma get_ev1_version_np:
  assumes "no_password n g"
  shows "no_password (Suc n) (snd (get_ev1_version crc g))"
proof -
  let ?g1 = "snd (raw_mode_start g)"
  let ?g2 = "?g1\<lparr>abtEV1 := iso14443a_crc_append crc (abtEV1 ?g1) 1\<rparr>"
  let ?g3 = "snd (transmit_bytes (take 3 (abtEV1 ?g2)) ?g2)"
  let ?g4 = "snd (raw_mode_end ?g3)"
  have 1: "no_password (Suc n) ?g1" using assms by (rule raw_mode_start_np)
  then have h: "take 1 (abtEV1 ?g1) = [0x60]" by (simp add: no_password_def)
  have 2: "no_password (Suc n) ?g2"
    using 1 crc_append_head(1) [OF h] by (simp add: no_password_def)
  have "take 1 (take 3 (abtEV1 ?g2)) \<noteq> [0x1B]"
    using crc_append_head(2) [OF h, of crc] by simp
  then have 3: "no_password (Suc n) ?g3" using 2 by (rule transmit_bytes_np [rotated])
  have 4: "no_password (Suc n) ?g4" using 3 by (rule raw_mode_end_np)
  have "snd (get_ev1_version crc g) \<in> {?g1, ?g4}"
    by (simp add: get_ev1_version_def split_beta Let_def)
  then show ?thesis using 1 4 by auto
qed

lemma main_probe_no_password:
  assumes "no_password 0 g"
  shows "no_password 1 (step_state (main_probe crc g))"
proof -
  let ?g1 = "snd (get_ev1_version crc g)"
  let ?g2 = "snd (select_passive_target ?g1)"
  have 1: "no_password 1 ?g1" using get_ev1_version_np [OF assms] by simp
  have 2: "no_password 1 ?g2" using 1 by (rule select_np)
  have 3: "no_password 1 (close_exit ?g2)" using 2 by (rule no_password_close)
  show ?thesis
    using 1 2 3 by (simp add: main_probe_def split_beta Let_def step_state_def)
qed

lemma read_stride_pnd:
  "pnd (snd (snd (read_stride page s))) =
     adv (MifareCmd MC_READ page (mp (snd (snd s)))) (pnd (snd (snd s)))"
  by (simp add: read_stride_def split_beta Let_def mifare_cmd_pnd)

lemma read_pages_quiet:
  "quiet n (pnd (snd (snd s))) \<Longrightarrow> quiet n (pnd (snd (snd (read_pages page s))))"
proof (induction page s rule: read_pages.induct)
  case (1 page s)
  show ?case
  proof (cases "page < uiBlocks (snd (snd s))")
    case True
    have "quiet n (pnd (snd (snd (read_stride page s))))"
      using "1.prems" by (simp add: read_stride_pnd quiet_adv)
    then show ?thesis using "1.IH" [OF True] True by (simp add: read_pages_step)
  next
    case False
    then show ?thesis using "1.prems" by (simp add: read_pages_done)
  qed
qed

lemma overlay_fields [simp]:
  "iPWD (overlay_ntag h (overlay_ev1 h g)) = iPWD g"
  "iPACK (overlay_ntag h (overlay_ev1 h g)) = iPACK g"
  "pnd (overlay_ntag h (overlay_ev1 h g)) = pnd g"
  "iEV1Type (overlay_ntag h (overlay_ev1 h g)) = iEV1Type g"
  "iNTAGType (overlay_ntag h (overlay_ev1 h g)) = iNTAGType g"
  by (simp_all add: overlay_ntag_def overlay_ev1_def split: ev1_type.splits ntag_type.splits)

lemma zero_secret_nth:
  "k < 4 \<Longrightarrow> [0, 0, 0, 0 :: byte] ! k = 0" "k < 2 \<Longrightarrow> [0, 0 :: byte] ! k = 0"
  by (simp_all add: nth_Cons' )

lemma memcpy_dump_zero:
  "(\<forall>k < n. src ! k = 0) \<Longrightarrow> (off \<le> i \<and> i < off + n) \<or> m i = 0 \<Longrightarrow>
   memcpy_dump m off src n i = 0"
  by (auto simp: memcpy_dump_def)

lemma overlay_blank:
  assumes "iPWD g = [0, 0, 0, 0]" and "iPACK g = [0, 0]"
  shows "list_all (\<lambda>i. mtDump (overlay_ntag h (overlay_ev1 h g)) i = 0)
           (secret_bytes h (overlay_ntag h (overlay_ev1 h g)))"
proof -
  have p: "\<forall>k < 4. iPWD g ! k = 0" and q: "\<forall>k < 2. iPACK g ! k = 0"
    using assms by (simp_all add: zero_secret_nth)
  have z: "memcpy_dump m off (iPWD g) 4 i = 0" if "(off \<le> i \<and> i < off + 4) \<or> m i = 0"
    for m off i using p that by (intro memcpy_dump_zero) auto
  have y: "memcpy_dump m off (iPACK g) 2 i = 0" if "(off \<le> i \<and> i < off + 2) \<or> m i = 0"
    for m off i using q that by (intro memcpy_dump_zero) auto
  show ?thesis
    by (cases "iEV1Type g"; cases "iNTAGType g")
       (auto simp: secret_bytes_def overlay_ntag_def overlay_ev1_def list_all_iff intro!: z y)
qed

lemma main_read_never_authenticated:
  assumes "no_password 1 g"
  shows "never_authenticated h (main_read h a b g)"
proof -
  let ?g1 = "g\<lparr>mtDump := (\<lambda>_. 0)\<rparr>"
  let ?r = "read_pages 0 (False, 0, ?g1)"
  have k: "iPWD (snd (snd ?r)) = [0, 0, 0, 0]" "iPACK (snd (snd ?r)) = [0, 0]"
    using assms by (simp_all add: read_pages_keeps no_password_def)
  have qu: "quiet 1 (pnd (snd (snd ?r)))"
    using assms by (intro read_pages_quiet) (simp add: no_password_def)
  show ?thesis
    using k qu overlay_blank [OF k, of h]
    by (simp add: main_read_def read_card_def split_beta Let_def never_authenticated_def
        secret_bytes_def)
qed

lemma no_password_never_authenticated:
  "no_password n g \<Longrightarrow> n \<le> 1 \<Longrightarrow> never_authenticated h g"
  by (auto simp: no_password_def never_authenticated_def list_all_iff intro: quiet_mono)

lemma never_authenticated_close:
  "never_authenticated h g \<Longrightarrow> never_authenticated h (close_exit g)"
  by (simp add: never_authenticated_def close_exit_pnd quiet_notify secret_bytes_def)

lemma no_password_initially:
  "no_password 0 (initial_globals \<lparr>replies = rs, calls = []\<rparr> inp)"
  by (simp add: no_password_def initial_globals_def quiet_def raw_entries_def)

text \<open>
  C9 (no password in any run). \<^verbatim>\<open>bPWD\<close> is a local of \<^verbatim>\<open>main\<close> that is initialised to
  false and never assigned, so in every run, whatever the arguments and the reader do
  and however the run ends: \<^verbatim>\<open>iPWD\<close> and \<^verbatim>\<open>iPACK\<close> are all zero at the end, no
  frame beginning with the authentication command 0x1B has been sent, raw mode has been
  entered at most once (by the version probe, so \<^verbatim>\<open>ev1_pwd_auth\<close> has not run), and the
  dump holds zero at every byte that \<^verbatim>\<open>read_card\<close> fills with the password or the PACK
  for the tag type detected.
\<close>

theorem password_never_used:
  "iPWD (outcome_state (main atoi crc h argv \<lparr>replies = rs, calls = []\<rparr> inp)) = [0, 0, 0, 0]
   \<and> iPACK (outcome_state (main atoi crc h argv \<lparr>replies = rs, calls = []\<rparr> inp)) = [0, 0]
   \<and> list_all (\<lambda>e. \<not> is_auth_frame e)
        (calls (pnd (outcome_state (main atoi crc h argv \<lparr>replies = rs, calls = []\<rparr> inp))))
   \<and> raw_entries (pnd (outcome_state (main atoi crc h argv \<lparr>replies = rs, calls = []\<rparr> inp)))
        \<le> 1
   \<and> list_all
        (\<lambda>i. mtDump (outcome_state (main atoi crc h argv \<lparr>replies = rs, calls = []\<rparr> inp)) i = 0)
        (secret_bytes h (outcome_state (main atoi crc h argv \<lparr>replies = rs, calls = []\<rparr> inp)))"
proof -
  let ?g0 = "initial_globals \<lparr>replies = rs, calls = []\<rparr> inp"
  let ?a = "main_args atoi argv (- 1, - 1, ?g0)"
  have a: "no_password 0 (args_state ?a)"
    using no_password_initially [of rs inp] main_args_same [of atoi argv "- 1" "- 1" ?g0]
    by (simp add: no_password_def)
  have "never_authenticated h (outcome_state (main atoi crc h argv \<lparr>replies = rs, calls = []\<rparr> inp))"
  proof (cases ?a)
    case (Inl g)
    then show ?thesis using a
      by (simp add: main_def args_state_def no_password_never_authenticated)
  next
    case (Inr t)
    obtain sb eb g where t: "t = (sb, eb, g)" by (cases t) auto
    have g: "no_password 0 g" using a Inr t by (simp add: args_state_def)
    have o: "no_password 0 (step_state (main_open g))" using g by (rule main_open_no_password)
    show ?thesis
    proof (cases "main_open g")
      case (Inl out)
      then show ?thesis using o Inr t
        by (simp add: main_def step_state_def no_password_never_authenticated)
    next
      case g1: (Inr g1)
      then have n1: "no_password 0 g1" using o by (simp add: step_state_def)
      have s: "no_password 0 (step_state (main_select g1))"
        using n1 by (rule main_select_no_password)
      show ?thesis
      proof (cases "main_select g1")
        case (Inl out)
        then show ?thesis using s Inr t g1
          by (simp add: main_def step_state_def no_password_never_authenticated)
      next
        case g2: (Inr g2)
        then have n2: "no_password 0 g2" using s by (simp add: step_state_def)
        have p: "no_password 1 (step_state (main_probe crc g2))"
          using n2 by (rule main_probe_no_password)
        show ?thesis
        proof (cases "nt g2 ! 1 \<noteq> 0x44")
          case True
          have "never_authenticated h (close_exit g2)"
            using never_authenticated_close [OF no_password_never_authenticated [OF n2]] by simp
          then show ?thesis using True Inr t g1 g2
            by (simp add: main_def)
        next
          case atqa: False
          show ?thesis
          proof (cases "main_probe crc g2")
            case (Inl out)
            then show ?thesis using p Inr t g1 g2 atqa
              by (simp add: main_def step_state_def no_password_never_authenticated)
          next
            case g3: (Inr g3)
            then have n3: "no_password 1 g3" using p by (simp add: step_state_def)
            show ?thesis using Inr t g1 g2 atqa g3 main_read_never_authenticated [OF n3]
              by (simp add: main_def main_auth_def never_authenticated_close)
          qed
        qed
      qed
    qed
  qed
  then show ?thesis by (simp add: never_authenticated_def quiet_def)
qed

end
